theory Spec2Isabelle
  imports Main
begin

section \<open>Python values used by the program\<close>

text \<open>
  Exceptions of the source are values of type \<open>exn\<close>; a computation that may raise
  returns \<open>exn + 'a\<close> with \<open>Inl\<close> for the raised exception.
\<close>

datatype exn = ConnectionError | ResponseError | DataError | ValueError

text \<open>
  \<open>str(n)\<close> and \<open>int(s)\<close> on decimal strings. \<open>py_int\<close> returns \<open>None\<close> where
  Python raises \<open>ValueError\<close>. (Python's \<open>int\<close> also accepts surrounding blanks, a
  leading plus sign and underscores; no string written by this program has them.)
\<close>

definition digit_char :: "nat \<Rightarrow> char" where
  "digit_char d = char_of (48 + d)"

function str_nat :: "nat \<Rightarrow> string" where
  "str_nat n = (if n < 10 then [digit_char n] else str_nat (n div 10) @ [digit_char (n mod 10)])"
  by pat_completeness auto
termination
  by (relation "measure (\<lambda>n. n)") auto

definition str_int :: "int \<Rightarrow> string" where
  "str_int i = (if i < 0 then CHR ''-'' # str_nat (nat (- i)) else str_nat (nat i))"

definition digit_of :: "char \<Rightarrow> nat option" where
  "digit_of c =
     (let k = (of_char c :: nat) in if 48 \<le> k \<and> k \<le> 57 then Some (k - 48) else None)"

fun nat_of_digits :: "nat \<Rightarrow> string \<Rightarrow> nat option" where
  "nat_of_digits acc [] = Some acc"
| "nat_of_digits acc (c # cs) =
     (case digit_of c of None \<Rightarrow> None | Some d \<Rightarrow> nat_of_digits (10 * acc + d) cs)"

definition py_int :: "string \<Rightarrow> int option" where
  "py_int s =
     (case s of
        [] \<Rightarrow> None
      | c # cs \<Rightarrow>
          if c = CHR ''-'' then
            (if cs = [] then None else map_option (\<lambda>n. - int n) (nat_of_digits 0 cs))
          else map_option int (nat_of_digits 0 s))"

text \<open>Truthiness of an optional string: \<open>None\<close> and the empty string are false.\<close>

definition truthy :: "string option \<Rightarrow> bool" where
  "truthy x = (case x of None \<Rightarrow> False | Some v \<Rightarrow> v \<noteq> [])"

text \<open>
  A \<open>datetime\<close> is its count of microseconds (the resolution of Python's datetime);
  \<open>timedelta.total_seconds()\<close> compared with a whole number of seconds is the comparison
  of the microsecond counts. \<open>isoformat\<close> and \<open>fromisoformat\<close> are rendered by the decimal
  codec: the program only relies on reading back what it wrote.
\<close>

definition seconds :: "int \<Rightarrow> int" where
  "seconds n = n * 1000000"

definition isoformat :: "int \<Rightarrow> string" where
  "isoformat t = str_int t"



text \<open>
  What a request reads from its surroundings: the wall clock and the two
  \<open>strftime\<close> renderings of it that \<open>track_metric\<close> puts into its keys.
\<close>

record clock =
  now :: int
  hour_stamp :: string
  day_stamp :: string

section \<open>The Redis server, as the client sees it\<close>

text \<open>
  The server is outside the repository. It is modelled by its command semantics on a
  keyspace whose entries carry an optional absolute expiry; a key is gone once the clock
  has passed its expiry. \<open>server_up\<close> says whether a command reaches the server: when
  it does not, the client call raises.
\<close>

datatype redis_value = Str string | Hash "string \<rightharpoonup> string"

record redis_entry =
  payload :: redis_value
  expire_at :: "int option"

type_synonym redis_db = "string \<rightharpoonup> redis_entry"

record redis_server =
  server_up :: bool
  server_db :: redis_db

definition lookup :: "int \<Rightarrow> redis_db \<Rightarrow> string \<Rightarrow> redis_entry option" where
  "lookup t d k =
     (case d k of
        None \<Rightarrow> None
      | Some e \<Rightarrow>
          (case expire_at e of
             None \<Rightarrow> Some e
           | Some x \<Rightarrow> if t > x then None else Some e))"

definition client_get :: "int \<Rightarrow> string \<Rightarrow> redis_server \<Rightarrow> exn + string option" where
  "client_get t k srv =
     (if \<not> server_up srv then Inl ConnectionError
      else case lookup t (server_db srv) k of
             None \<Rightarrow> Inr None
           | Some e \<Rightarrow> (case payload e of Str v \<Rightarrow> Inr (Some v) | Hash h \<Rightarrow> Inl ResponseError))"

definition client_set ::
  "int \<Rightarrow> string \<Rightarrow> string \<Rightarrow> int option \<Rightarrow> redis_server \<Rightarrow> exn + (bool \<times> redis_server)" where
  "client_set t k v ex srv =
     (if \<not> server_up srv then Inl ConnectionError
      else case ex of
             None \<Rightarrow>
               Inr (True, srv\<lparr>server_db := (server_db srv)(k \<mapsto> \<lparr>payload = Str v, expire_at = None\<rparr>)\<rparr>)
           | Some n \<Rightarrow>
               if n \<le> 0 then Inl ResponseError
               else Inr (True, srv\<lparr>server_db :=
                      (server_db srv)(k \<mapsto> \<lparr>payload = Str v, expire_at = Some (t + seconds n)\<rparr>)\<rparr>))"

definition client_hget :: "int \<Rightarrow> string \<Rightarrow> string \<Rightarrow> redis_server \<Rightarrow> exn + string option" where
  "client_hget t name k srv =
     (if \<not> server_up srv then Inl ConnectionError
      else case lookup t (server_db srv) name of
             None \<Rightarrow> Inr None
           | Some e \<Rightarrow> (case payload e of Str v \<Rightarrow> Inl ResponseError | Hash h \<Rightarrow> Inr (h k)))"

text \<open>\<open>HSET\<close> answers with the number of fields that were new.\<close>

definition client_hset ::
  "int \<Rightarrow> string \<Rightarrow> (string \<times> string) list \<Rightarrow> redis_server \<Rightarrow> exn + (nat \<times> redis_server)" where
  "client_hset t name mapping srv =
     (if mapping = [] then Inl DataError
      else if \<not> server_up srv then Inl ConnectionError
      else case lookup t (server_db srv) name of
             None \<Rightarrow>
               Inr (length (remdups (map fst mapping)),
                    srv\<lparr>server_db := (server_db srv)
                      (name \<mapsto> \<lparr>payload = Hash (map_of mapping), expire_at = None\<rparr>)\<rparr>)
           | Some e \<Rightarrow>
               (case payload e of
                  Str v \<Rightarrow> Inl ResponseError
                | Hash h \<Rightarrow>
                    Inr (length (filter (\<lambda>f. h f = None) (remdups (map fst mapping))),
                         srv\<lparr>server_db := (server_db srv)
                           (name \<mapsto> e\<lparr>payload := Hash (h ++ map_of mapping)\<rparr>)\<rparr>)))"

definition client_expire ::
  "int \<Rightarrow> string \<Rightarrow> int \<Rightarrow> redis_server \<Rightarrow> exn + (bool \<times> redis_server)" where
  "client_expire t name secs srv =
     (if \<not> server_up srv then Inl ConnectionError
      else case lookup t (server_db srv) name of
             None \<Rightarrow> Inr (False, srv)
           | Some e \<Rightarrow>
               if secs \<le> 0 then Inr (True, srv\<lparr>server_db := (server_db srv)(name := None)\<rparr>)
               else Inr (True, srv\<lparr>server_db :=
                      (server_db srv)(name \<mapsto> e\<lparr>expire_at := Some (t + seconds secs)\<rparr>)\<rparr>))"

definition client_delete ::
  "int \<Rightarrow> string list \<Rightarrow> redis_server \<Rightarrow> exn + (nat \<times> redis_server)" where
  "client_delete t names srv =
     (if names = [] then Inl ResponseError
      else if \<not> server_up srv then Inl ConnectionError
      else Inr (length (filter (\<lambda>k. lookup t (server_db srv) k \<noteq> None) (remdups names)),
                srv\<lparr>server_db := (\<lambda>k. if k \<in> set names then None else server_db srv k)\<rparr>))"

definition client_exists :: "int \<Rightarrow> string \<Rightarrow> redis_server \<Rightarrow> exn + nat" where
  "client_exists t name srv =
     (if \<not> server_up srv then Inl ConnectionError
      else Inr (if lookup t (server_db srv) name = None then 0 else 1))"

text \<open>
  \<open>INCRBY\<close> reads a missing key as 0, keeps the expiry of a key it finds and refuses a
  value that is not a decimal integer. (Its 64-bit range check is left out: the counters
  of this program stay far below it.)
\<close>

definition client_incr ::
  "int \<Rightarrow> string \<Rightarrow> int \<Rightarrow> redis_server \<Rightarrow> exn + (int \<times> redis_server)" where
  "client_incr t name amount srv =
     (if \<not> server_up srv then Inl ConnectionError
      else case lookup t (server_db srv) name of
             None \<Rightarrow>
               Inr (amount, srv\<lparr>server_db := (server_db srv)
                      (name \<mapsto> \<lparr>payload = Str (str_int amount), expire_at = None\<rparr>)\<rparr>)
           | Some e \<Rightarrow>
               (case payload e of
                  Hash h \<Rightarrow> Inl ResponseError
                | Str v \<Rightarrow>
                    (case py_int v of
                       None \<Rightarrow> Inl ResponseError
                     | Some n \<Rightarrow>
                         Inr (n + amount, srv\<lparr>server_db := (server_db srv)
                                (name \<mapsto> e\<lparr>payload := Str (str_int (n + amount))\<rparr>)\<rparr>))))"

definition client_hincrby ::
  "int \<Rightarrow> string \<Rightarrow> string \<Rightarrow> int \<Rightarrow> redis_server \<Rightarrow> exn + (int \<times> redis_server)" where
  "client_hincrby t name k amount srv =
     (if \<not> server_up srv then Inl ConnectionError
      else case lookup t (server_db srv) name of
             None \<Rightarrow>
               Inr (amount, srv\<lparr>server_db := (server_db srv)
                      (name \<mapsto> \<lparr>payload = Hash [k \<mapsto> str_int amount], expire_at = None\<rparr>)\<rparr>)
           | Some e \<Rightarrow>
               (case payload e of
                  Str v \<Rightarrow> Inl ResponseError
                | Hash h \<Rightarrow>
                    (case h k of
                       None \<Rightarrow>
                         Inr (amount, srv\<lparr>server_db := (server_db srv)
                                (name \<mapsto> e\<lparr>payload := Hash (h(k \<mapsto> str_int amount))\<rparr>)\<rparr>)
                     | Some v \<Rightarrow>
                         (case py_int v of
                            None \<Rightarrow> Inl ResponseError
                          | Some n \<Rightarrow>
                              Inr (n + amount, srv\<lparr>server_db := (server_db srv)
                                     (name \<mapsto> e\<lparr>payload := Hash (h(k \<mapsto> str_int (n + amount)))\<rparr>)\<rparr>)))))"

section \<open>redis\_helper.py: class RedisHelper\<close>

text \<open>
  \<open>redis_client\<close> records whether the attribute holds a client (it is \<open>None\<close> until
  \<open>from_url\<close> has returned one); \<open>redis_available\<close> is the flag of the source.
\<close>

record RedisHelper =
  redis_client :: bool
  redis_available :: bool

text \<open>
  \<open>__init__\<close> followed by \<open>_connect\<close>: \<open>url_ok\<close> says whether \<open>redis.from_url\<close>
  returns, \<open>ping_ok\<close> whether the ping does.
\<close>

definition connect :: "bool \<Rightarrow> bool \<Rightarrow> RedisHelper" where
  "connect url_ok ping_ok =
     (if \<not> url_ok then \<lparr>redis_client = False, redis_available = False\<rparr>
      else if ping_ok then \<lparr>redis_client = True, redis_available = True\<rparr>
      else \<lparr>redis_client = True, redis_available = False\<rparr>)"

definition is_available :: "RedisHelper \<Rightarrow> bool" where
  "is_available h = (redis_available h \<and> redis_client h)"

section \<open>app.py: the state of the application\<close>

record otp_entry =
  otp :: string
  expires_at :: int
  attempts :: int

record form_data =
  form_first_name :: string
  form_last_name :: string
  form_phone :: string
  form_email :: string
  form_comments :: string

text \<open>
  The module globals \<open>redis_helper\<close>, \<open>otp_storage\<close> and \<open>otp_resend_cooldown\<close>, the
  server the helper talks to, and the \<open>form_data\<close> entry of the client's session.
\<close>

record app_state =
  redis_helper :: RedisHelper
  server :: redis_server
  otp_storage :: "string \<rightharpoonup> otp_entry"
  otp_resend_cooldown :: "string \<rightharpoonup> int"
  session_form_data :: "form_data option"

subsection \<open>The methods of RedisHelper\<close>

text \<open>
  \<open>rh_get\<close> is \<open>RedisHelper.get\<close>, \<open>rh_set\<close> is \<open>RedisHelper.set\<close>, and so on for
  the nine methods. Each method tests \<open>is_available\<close>, calls the client inside \<open>try\<close>
  and returns its fallback value from the \<open>except Exception\<close> branch. The methods that
  write return the state with the server as the command left it.
\<close>

definition rh_get :: "int \<Rightarrow> string \<Rightarrow> string option \<Rightarrow> app_state \<Rightarrow> string option" where
  "rh_get t key dflt s =
     (if \<not> is_available (redis_helper s) \<or> \<not> redis_client (redis_helper s) then dflt
      else case client_get t key (server s) of
             Inl e \<Rightarrow> dflt
           | Inr None \<Rightarrow> dflt
           | Inr (Some v) \<Rightarrow> Some v)"

definition rh_set ::
  "int \<Rightarrow> string \<Rightarrow> string \<Rightarrow> int option \<Rightarrow> app_state \<Rightarrow> bool \<times> app_state" where
  "rh_set t key v ex s =
     (if \<not> is_available (redis_helper s) \<or> \<not> redis_client (redis_helper s) then (False, s)
      else case client_set t key v ex (server s) of
             Inl e \<Rightarrow> (False, s)
           | Inr (r, srv) \<Rightarrow> (r, s\<lparr>server := srv\<rparr>))"

definition rh_hget ::
  "int \<Rightarrow> string \<Rightarrow> string \<Rightarrow> string option \<Rightarrow> app_state \<Rightarrow> string option" where
  "rh_hget t name key dflt s =
     (if \<not> is_available (redis_helper s) \<or> \<not> redis_client (redis_helper s) then dflt
      else case client_hget t name key (server s) of
             Inl e \<Rightarrow> dflt
           | Inr None \<Rightarrow> dflt
           | Inr (Some v) \<Rightarrow> Some v)"

definition rh_hset ::
  "int \<Rightarrow> string \<Rightarrow> (string \<times> string) list \<Rightarrow> app_state \<Rightarrow> bool \<times> app_state" where
  "rh_hset t name mapping s =
     (if \<not> is_available (redis_helper s) \<or> \<not> redis_client (redis_helper s) then (False, s)
      else case client_hset t name mapping (server s) of
             Inl e \<Rightarrow> (False, s)
           | Inr (r, srv) \<Rightarrow> (r \<noteq> 0, s\<lparr>server := srv\<rparr>))"

definition rh_expire :: "int \<Rightarrow> string \<Rightarrow> int \<Rightarrow> app_state \<Rightarrow> bool \<times> app_state" where
  "rh_expire t name secs s =
     (if \<not> is_available (redis_helper s) \<or> \<not> redis_client (redis_helper s) then (False, s)
      else case client_expire t name secs (server s) of
             Inl e \<Rightarrow> (False, s)
           | Inr (r, srv) \<Rightarrow> (r, s\<lparr>server := srv\<rparr>))"

definition rh_delete :: "int \<Rightarrow> string list \<Rightarrow> app_state \<Rightarrow> bool \<times> app_state" where
  "rh_delete t names s =
     (if \<not> is_available (redis_helper s) \<or> \<not> redis_client (redis_helper s) then (False, s)
      else case client_delete t names (server s) of
             Inl e \<Rightarrow> (False, s)
           | Inr (r, srv) \<Rightarrow> (r \<noteq> 0, s\<lparr>server := srv\<rparr>))"

definition rh_exists :: "int \<Rightarrow> string \<Rightarrow> app_state \<Rightarrow> bool" where
  "rh_exists t name s =
     (if \<not> is_available (redis_helper s) \<or> \<not> redis_client (redis_helper s) then False
      else case client_exists t name (server s) of
             Inl e \<Rightarrow> False
           | Inr r \<Rightarrow> r \<noteq> 0)"

definition rh_incr :: "int \<Rightarrow> string \<Rightarrow> int \<Rightarrow> app_state \<Rightarrow> int option \<times> app_state" where
  "rh_incr t name amount s =
     (if \<not> is_available (redis_helper s) \<or> \<not> redis_client (redis_helper s) then (None, s)
      else case client_incr t name amount (server s) of
             Inl e \<Rightarrow> (None, s)
           | Inr (r, srv) \<Rightarrow> (Some r, s\<lparr>server := srv\<rparr>))"

definition rh_hincrby ::
  "int \<Rightarrow> string \<Rightarrow> string \<Rightarrow> int \<Rightarrow> app_state \<Rightarrow> int option \<times> app_state" where
  "rh_hincrby t name key amount s =
     (if \<not> is_available (redis_helper s) \<or> \<not> redis_client (redis_helper s) then (None, s)
      else case client_hincrby t name key amount (server s) of
             Inl e \<Rightarrow> (None, s)
           | Inr (r, srv) \<Rightarrow> (Some r, s\<lparr>server := srv\<rparr>))"

subsection \<open>The keys built by f-strings\<close>

definition otp_key :: "string \<Rightarrow> string" where
  "otp_key email = ''otp:'' @ email"

definition otp_resend_key :: "string \<Rightarrow> string" where
  "otp_resend_key email = ''otp_resend:'' @ email"

definition metric_key :: "string \<Rightarrow> string \<Rightarrow> string" where
  "metric_key metric_name stamp = ''metrics:'' @ metric_name @ '':'' @ stamp"

subsection \<open>track\_metric\<close>

definition track_metric :: "clock \<Rightarrow> string \<Rightarrow> app_state \<Rightarrow> app_state" where
  "track_metric c metric_name s =
     (let hour_key = metric_key metric_name (hour_stamp c);
          day_key = metric_key metric_name (day_stamp c);
          s1 = snd (rh_incr (now c) hour_key 1 s);
          s2 = snd (rh_expire (now c) hour_key (86400 * 7) s1);
          s3 = snd (rh_incr (now c) day_key 1 s2)
      in snd (rh_expire (now c) day_key (86400 * 30) s3))"

subsection \<open>store\_otp and verify\_otp\<close>

definition store_otp :: "clock \<Rightarrow> string \<Rightarrow> string \<Rightarrow> app_state \<Rightarrow> app_state" where
  "store_otp c email otp_value s =
     (let expiration = now c + seconds (5 * 60) in
      if is_available (redis_helper s) then
        (let key = otp_key email;
             data = [(''otp'', otp_value), (''attempts'', ''0''),
                     (''created_at'', isoformat (now c))];
             s1 = snd (rh_hset (now c) key data s);
             s2 = snd (rh_expire (now c) key 300 s1)
         in track_metric c ''otp_generated'' s2)
      else
        s\<lparr>otp_storage := (otp_storage s)
            (email \<mapsto> \<lparr>otp = otp_value, expires_at = expiration, attempts = 0\<rparr>)\<rparr>)"

text \<open>
  The second component of what \<open>verify_otp\<close> returns, one constructor for each message of
  the source:
  \<open>Not_found_or_expired\<close> is "OTP not found or expired",
  \<open>Verified_successfully\<close> is "OTP verified successfully",
  \<open>Too_many_attempts\<close> is "Too many incorrect attempts",
  \<open>Invalid_remaining n\<close> is "Invalid OTP. n attempt(s) remaining",
  \<open>Otp_not_found\<close> is "OTP not found",
  \<open>Otp_has_expired\<close> is "OTP has expired" and
  \<open>Invalid_otp\<close> is "Invalid OTP".
\<close>

datatype otp_message =
    Not_found_or_expired
  | Verified_successfully
  | Too_many_attempts
  | Invalid_remaining int
  | Otp_not_found
  | Otp_has_expired
  | Invalid_otp

definition verify_otp ::
  "clock \<Rightarrow> string \<Rightarrow> string \<Rightarrow> app_state \<Rightarrow> (exn + bool \<times> otp_message) \<times> app_state" where
  "verify_otp c email submitted_otp s =
     (if is_available (redis_helper s) then
        (let key = otp_key email in
         if \<not> rh_exists (now c) key s then (Inr (False, Not_found_or_expired), s)
         else
           (let stored_otp = rh_hget (now c) key ''otp'' None s;
                attempts_str = rh_hget (now c) key ''attempts'' (Some ''0'') s
            in case (if truthy attempts_str then py_int (the attempts_str) else Some 0) of
                 None \<Rightarrow> (Inl ValueError, s)
               | Some attempts_n \<Rightarrow>
                   if stored_otp = Some submitted_otp then
                     (Inr (True, Verified_successfully),
                      track_metric c ''otp_verified_success'' (snd (rh_delete (now c) [key] s)))
                   else
                     (let new_attempts = attempts_n + 1 in
                      if new_attempts \<ge> 3 then
                        (Inr (False, Too_many_attempts),
                         track_metric c ''otp_too_many_attempts''
                           (snd (rh_delete (now c) [key] s)))
                      else
                        (Inr (False, Invalid_remaining (3 - new_attempts)),
                         track_metric c ''otp_verification_failed''
                           (snd (rh_hincrby (now c) key ''attempts'' 1 s))))))
      else
        (case otp_storage s email of
           None \<Rightarrow> (Inr (False, Otp_not_found), s)
         | Some stored_data \<Rightarrow>
             if now c > expires_at stored_data then
               (Inr (False, Otp_has_expired), s\<lparr>otp_storage := (otp_storage s)(email := None)\<rparr>)
             else if attempts stored_data \<ge> 3 then
               (Inr (False, Too_many_attempts), s\<lparr>otp_storage := (otp_storage s)(email := None)\<rparr>)
             else if otp stored_data = submitted_otp then
               (Inr (True, Verified_successfully),
                s\<lparr>otp_storage := (otp_storage s)(email := None)\<rparr>)
             else
               (Inr (False, Invalid_otp),
                s\<lparr>otp_storage := (otp_storage s)
                    (email \<mapsto> stored_data\<lparr>attempts := attempts stored_data + 1\<rparr>)\<rparr>)))"

text \<open>
  The result names of the specification, and the reading of each message of the source as
  one of them. \<open>InvalidCode\<close> carries the remaining count where the message has one.
\<close>

datatype verify_outcome = Verified | InvalidCode "int option" | Expired | TooManyAttempts | NotFound

fun outcome_of :: "otp_message \<Rightarrow> verify_outcome" where
  "outcome_of Not_found_or_expired = NotFound"
| "outcome_of Verified_successfully = Verified"
| "outcome_of Too_many_attempts = TooManyAttempts"
| "outcome_of (Invalid_remaining n) = InvalidCode (Some n)"
| "outcome_of Otp_not_found = NotFound"
| "outcome_of Otp_has_expired = Expired"
| "outcome_of Invalid_otp = InvalidCode None"

subsection \<open>cleanup\_old\_data\<close>

definition cleanup_old_data :: "clock \<Rightarrow> app_state \<Rightarrow> app_state" where
  "cleanup_old_data c s =
     (if is_available (redis_helper s) then s
      else s\<lparr>otp_storage :=
               (\<lambda>e. case otp_storage s e of
                      None \<Rightarrow> None
                    | Some d \<Rightarrow> if now c > expires_at d then None else Some d),
             otp_resend_cooldown :=
               (\<lambda>e. case otp_resend_cooldown s e of
                      None \<Rightarrow> None
                    | Some stamp \<Rightarrow> if now c - stamp > seconds 3600 then None else Some stamp)\<rparr>)"

subsection \<open>index: the two rate-limit blocks\<close>

text \<open>
  The blocks of \<open>index\<close> for the steps "form" and "otp" are the same code up to the key
  prefix, the ceiling and the window. \<open>Admitted\<close> means that the request goes on to its
  handler, \<open>Rejected\<close> that the throttling message is flashed and the form rendered.
  \<open>int(str(current))\<close> is outside any \<open>try\<close>: its \<open>ValueError\<close> leaves \<open>index\<close>.
\<close>

datatype admission = Admitted | Rejected

definition rate_limit_block ::
  "string \<Rightarrow> int \<Rightarrow> int \<Rightarrow> int \<Rightarrow> string \<Rightarrow> app_state \<Rightarrow> (exn + admission) \<times> app_state" where
  "rate_limit_block prefix limit window t client_ip s =
     (if is_available (redis_helper s) then
        (let rate_key = prefix @ client_ip;
             current = rh_get t rate_key None s
         in case current of
              None \<Rightarrow> (Inr Admitted, snd (rh_set t rate_key ''1'' (Some window) s))
            | Some cur \<Rightarrow>
                if cur \<noteq> [] then
                  (case py_int cur of
                     None \<Rightarrow> (Inl ValueError, s)
                   | Some n \<Rightarrow>
                       if n \<ge> limit then (Inr Rejected, s)
                       else (Inr Admitted, snd (rh_incr t rate_key 1 s)))
                else (Inr Admitted, snd (rh_incr t rate_key 1 s)))
      else (Inr Admitted, s))"

definition index_form_rate_limit ::
  "int \<Rightarrow> string \<Rightarrow> app_state \<Rightarrow> (exn + admission) \<times> app_state" where
  "index_form_rate_limit = rate_limit_block ''rate_limit:form:'' 10 3600"

definition index_otp_rate_limit ::
  "int \<Rightarrow> string \<Rightarrow> app_state \<Rightarrow> (exn + admission) \<times> app_state" where
  "index_otp_rate_limit = rate_limit_block ''rate_limit:otp:'' 15 300"

text \<open>A run of form-step requests of one client, each at its own clock reading.\<close>

fun form_requests :: "int list \<Rightarrow> string \<Rightarrow> app_state \<Rightarrow> (exn + admission) list \<times> app_state" where
  "form_requests [] client_ip s = ([], s)"
| "form_requests (t # ts) client_ip s =
     (let (r, s1) = index_form_rate_limit t client_ip s;
          (rs, s2) = form_requests ts client_ip s1
      in (r # rs, s2))"

fun otp_requests :: "int list \<Rightarrow> string \<Rightarrow> app_state \<Rightarrow> (exn + admission) list \<times> app_state" where
  "otp_requests [] client_ip s = ([], s)"
| "otp_requests (t # ts) client_ip s =
     (let (r, s1) = index_otp_rate_limit t client_ip s;
          (rs, s2) = otp_requests ts client_ip s1
      in (r # rs, s2))"

subsection \<open>handle\_form\_submission and resend\_otp\<close>










subsection \<open>Runs of issue and verify calls\<close>

datatype otp_op = Issue string string | Verify string string

fun run_otp_ops :: "(clock \<times> otp_op) list \<Rightarrow> app_state \<Rightarrow> (exn + bool \<times> otp_message) list" where
  "run_otp_ops [] s = []"
| "run_otp_ops ((c, Issue email otp_value) # ops) s = run_otp_ops ops (store_otp c email otp_value s)"
| "run_otp_ops ((c, Verify email submitted_otp) # ops) s =
     (let (r, s1) = verify_otp c email submitted_otp s in r # run_otp_ops ops s1)"

section \<open>Vocabulary of the statements\<close>

text \<open>
  The two configurations of the application. In \<open>redis_mode\<close> the start-up probe
  succeeded and the server answers; in \<open>fallback_mode\<close> the probe failed, and the
  application keeps its codes in \<open>otp_storage\<close>.
\<close>

definition redis_mode :: "app_state \<Rightarrow> bool" where
  "redis_mode s = (is_available (redis_helper s) \<and> server_up (server s))"

definition fallback_mode :: "app_state \<Rightarrow> bool" where
  "fallback_mode s = (\<not> is_available (redis_helper s))"

text \<open>
  The hash stored under \<open>otp_key email\<close>, read as the entry that \<open>otp_storage\<close> would hold:
  the code, the expiry of the key and the attempts counted so far.
\<close>

definition redis_otp_entry :: "app_state \<Rightarrow> string \<Rightarrow> otp_entry option" where
  "redis_otp_entry s email =
     (case server_db (server s) (otp_key email) of
        None \<Rightarrow> None
      | Some e \<Rightarrow>
          (case payload e of
             Str v \<Rightarrow> None
           | Hash h \<Rightarrow>
               (case (h ''otp'', h ''attempts'', expire_at e) of
                  (Some code, Some a, Some x) \<Rightarrow>
                    (case py_int a of
                       None \<Rightarrow> None
                     | Some n \<Rightarrow> Some \<lparr>otp = code, expires_at = x, attempts = n\<rparr>)
                | _ \<Rightarrow> None)))"

text \<open>The key \<open>otp_key email\<close> is free or holds a hash (never a plain string).\<close>

definition otp_key_ok :: "int \<Rightarrow> app_state \<Rightarrow> string \<Rightarrow> bool" where
  "otp_key_ok t s email =
     (case lookup t (server_db (server s)) (otp_key email) of
        None \<Rightarrow> True
      | Some e \<Rightarrow> (case payload e of Str v \<Rightarrow> False | Hash h \<Rightarrow> True))"

text \<open>
  The OTP record of an email in the store the application uses, and the condition under
  which that store takes a new one: in Redis mode the server answers and the key is not
  taken by a plain string.
\<close>

definition otp_record :: "app_state \<Rightarrow> string \<Rightarrow> otp_entry option" where
  "otp_record s email =
     (if is_available (redis_helper s) then redis_otp_entry s email else otp_storage s email)"


text \<open>
  \<open>same_app s s'\<close>: the two states differ at most in the keyspace of the server.
\<close>

definition same_app :: "app_state \<Rightarrow> app_state \<Rightarrow> bool" where
  "same_app s s' =
     (redis_helper s' = redis_helper s \<and> server_up (server s') = server_up (server s) \<and>
      otp_storage s' = otp_storage s \<and> otp_resend_cooldown s' = otp_resend_cooldown s \<and>
      session_form_data s' = session_form_data s)"

text \<open>Concrete inputs: a clock reading, and the application right after start-up.\<close>

definition clock_at :: "int \<Rightarrow> clock" where
  "clock_at t = \<lparr>now = t, hour_stamp = ''2025-01-01:00'', day_stamp = ''2025-01-01''\<rparr>"

definition start_state :: "bool \<Rightarrow> bool \<Rightarrow> app_state" where
  "start_state ping_ok up =
     \<lparr>redis_helper = connect True ping_ok,
      server = \<lparr>server_up = up, server_db = Map.empty\<rparr>,
      otp_storage = Map.empty, otp_resend_cooldown = Map.empty, session_form_data = None\<rparr>"

text \<open>
  The relation between a state in Redis mode and a state in fallback mode under which
  the two answer alike from time \<open>t\<close> on. For each email either both stores hold the
  same code with the same expiry and the same count of attempts, below 3, or neither
  store can verify a code any more: the Redis key is free or has expired; the fallback
  entry is missing, has expired or has used its three attempts.
\<close>

definition fallback_dead :: "int \<Rightarrow> otp_entry option \<Rightarrow> bool" where
  "fallback_dead t ro =
     (case ro of None \<Rightarrow> True | Some r \<Rightarrow> expires_at r < t \<or> 3 \<le> attempts r)"

definition redis_dead :: "int \<Rightarrow> app_state \<Rightarrow> string \<Rightarrow> bool" where
  "redis_dead t s email =
     (case server_db (server s) (otp_key email) of
        None \<Rightarrow> True
      | Some e \<Rightarrow> (case expire_at e of None \<Rightarrow> False | Some x \<Rightarrow> x < t))"

definition rel_at :: "int \<Rightarrow> app_state \<Rightarrow> app_state \<Rightarrow> string \<Rightarrow> bool" where
  "rel_at t sr sf email =
     ((redis_dead t sr email \<and> fallback_dead t (otp_storage sf email)) \<or>
      (case redis_otp_entry sr email of
         None \<Rightarrow> False
       | Some r \<Rightarrow> otp_storage sf email = Some r \<and> attempts r < 3))"

definition otp_related :: "int \<Rightarrow> app_state \<Rightarrow> app_state \<Rightarrow> bool" where
  "otp_related t sr sf = (redis_mode sr \<and> fallback_mode sf \<and> (\<forall>email. rel_at t sr sf email))"

text \<open>Two answers of \<open>verify_otp\<close> agree on success: both return, with the same flag.\<close>

definition same_flag :: "exn + bool \<times> otp_message \<Rightarrow> exn + bool \<times> otp_message \<Rightarrow> bool" where
  "same_flag a b =
     (case a of
        Inl e \<Rightarrow> False
      | Inr p \<Rightarrow> (case b of Inl e \<Rightarrow> False | Inr q \<Rightarrow> fst p = fst q))"

text \<open>The answer as the specification names it.\<close>

definition outward :: "exn + bool \<times> otp_message \<Rightarrow> exn + verify_outcome" where
  "outward a = (case a of Inl e \<Rightarrow> Inl e | Inr p \<Rightarrow> Inr (outcome_of (snd p)))"

text \<open>The clock readings of a run never go back, starting from \<open>t\<close>.\<close>

fun nondecreasing :: "int \<Rightarrow> (clock \<times> otp_op) list \<Rightarrow> bool" where
  "nondecreasing t [] = True"
| "nondecreasing t ((c, x) # ops) = (t \<le> now c \<and> nondecreasing (now c) ops)"




text \<open>
  The cooldown entry of an email, as \<open>resend_otp\<close> wrote it at time \<open>t\<close>: in Redis mode
  the key \<open>otp_resend_key email\<close> with 30 seconds to live, in fallback mode the entry of
  \<open>otp_resend_cooldown\<close>.
\<close>

definition cooldown_written :: "app_state \<Rightarrow> string \<Rightarrow> int \<Rightarrow> bool" where
  "cooldown_written s email t =
     (if is_available (redis_helper s) then
        server_db (server s) (otp_resend_key email)
          = Some \<lparr>payload = Str (isoformat t), expire_at = Some (t + seconds 30)\<rparr>
      else otp_resend_cooldown s email = Some t)"

section \<open>The decimal codec\<close>

declare str_nat.simps [simp del]

lemma digit_of_digit_char: "d < 10 \<Longrightarrow> digit_of (digit_char d) = Some d"
  by (simp add: digit_of_def digit_char_def Let_def)

lemma digit_char_neq_minus: "d < 10 \<Longrightarrow> digit_char d \<noteq> CHR ''-''"
proof
  assume d: "d < 10" and e: "digit_char d = CHR ''-''"
  have "(of_char (digit_char d) :: nat) = of_char (CHR ''-'')" using e by simp
  then show False using d by (simp add: digit_char_def)
qed

lemma nat_of_digits_append:
  "nat_of_digits a (xs @ ys) =
     (case nat_of_digits a xs of None \<Rightarrow> None | Some b \<Rightarrow> nat_of_digits b ys)"
  by (induction xs arbitrary: a) (auto split: option.splits)

lemma nat_of_digits_str_nat: "nat_of_digits 0 (str_nat n) = Some n"
proof (induction n rule: str_nat.induct)
  case (1 n)
  show ?case
  proof (cases "n < 10")
    case True
    then show ?thesis by (simp add: str_nat.simps [of n] digit_of_digit_char)
  next
    case False
    with 1 show ?thesis
      by (simp add: str_nat.simps [of n] nat_of_digits_append digit_of_digit_char)
  qed
qed

lemma str_nat_nonempty: "str_nat n \<noteq> []"
  by (subst str_nat.simps) simp

lemma hd_str_nat_not_minus: "hd (str_nat n) \<noteq> CHR ''-''"
proof (induction n rule: str_nat.induct)
  case (1 n)
  show ?case
  proof (cases "n < 10")
    case True
    then show ?thesis by (simp add: str_nat.simps [of n] digit_char_neq_minus) 
  next
    case False
    with 1 show ?thesis
      by (simp add: str_nat.simps [of n] str_nat_nonempty)
  qed
qed

lemma py_int_str_int: "py_int (str_int i) = Some i"
proof (cases "i < 0")
  case True
  then show ?thesis
    by (simp add: py_int_def str_int_def str_nat_nonempty nat_of_digits_str_nat)
next
  case False
  obtain c cs where e: "str_nat (nat i) = c # cs"
    using str_nat_nonempty [of "nat i"] by (cases "str_nat (nat i)") auto
  have "c \<noteq> CHR ''-''" using hd_str_nat_not_minus [of "nat i"] e by simp
  moreover have "nat_of_digits 0 (c # cs) = Some (nat i)"
    using nat_of_digits_str_nat [of "nat i"] e by simp
  ultimately show ?thesis using False e
    by (simp add: py_int_def str_int_def)
qed


lemma str_int_0: "str_int 0 = ''0''"
  by code_simp

lemma py_int_0: "py_int ''0'' = Some 0"
  by code_simp


section \<open>The helper methods and the stores\<close>

lemmas client_defs = client_get_def client_set_def client_hget_def client_hset_def
  client_expire_def client_delete_def client_exists_def client_incr_def client_hincrby_def

lemma same_app_refl: "same_app s s"
  by (simp add: same_app_def)

lemma same_app_trans: "same_app s s1 \<Longrightarrow> same_app s1 s2 \<Longrightarrow> same_app s s2"
  by (simp add: same_app_def)

lemma same_app_rh_set: "same_app s (snd (rh_set t k v ex s))"
  by (simp add: same_app_def rh_set_def client_set_def split: sum.split option.split prod.split)

lemma same_app_rh_hset: "same_app s (snd (rh_hset t k m s))"
  by (simp add: same_app_def rh_hset_def client_hset_def
      split: sum.split option.split redis_value.split prod.split)

lemma same_app_rh_expire: "same_app s (snd (rh_expire t k n s))"
  by (simp add: same_app_def rh_expire_def client_expire_def
      split: sum.split option.split prod.split)

lemma same_app_rh_delete: "same_app s (snd (rh_delete t ks s))"
  by (simp add: same_app_def rh_delete_def client_delete_def
      split: sum.split option.split prod.split)

lemma same_app_rh_incr: "same_app s (snd (rh_incr t k a s))"
  by (simp add: same_app_def rh_incr_def client_incr_def
      split: sum.split option.split redis_value.split prod.split)

lemma same_app_rh_hincrby: "same_app s (snd (rh_hincrby t k f a s))"
  by (simp add: same_app_def rh_hincrby_def client_hincrby_def
      split: sum.split option.split redis_value.split prod.split)

lemma same_app_track_metric: "same_app s (track_metric c m s)"
  unfolding track_metric_def Let_def
  by (rule same_app_trans [OF same_app_trans [OF same_app_trans [OF same_app_rh_incr
      same_app_rh_expire] same_app_rh_incr] same_app_rh_expire])


lemma db_rh_hset_other:
  "k' \<noteq> k \<Longrightarrow> server_db (server (snd (rh_hset t k m s))) k' = server_db (server s) k'"
  by (simp add: rh_hset_def client_hset_def
      split: sum.split option.split redis_value.split prod.split)

lemma db_rh_expire_other:
  "k' \<noteq> k \<Longrightarrow> server_db (server (snd (rh_expire t k n s))) k' = server_db (server s) k'"
  by (simp add: rh_expire_def client_expire_def split: sum.split option.split prod.split)

lemma db_rh_delete_other:
  "k' \<noteq> k \<Longrightarrow> server_db (server (snd (rh_delete t [k] s))) k' = server_db (server s) k'"
  by (simp add: rh_delete_def client_delete_def split: sum.split option.split prod.split)

lemma db_rh_incr_other:
  "k' \<noteq> k \<Longrightarrow> server_db (server (snd (rh_incr t k a s))) k' = server_db (server s) k'"
  by (simp add: rh_incr_def client_incr_def
      split: sum.split option.split redis_value.split prod.split)

lemma db_rh_hincrby_other:
  "k' \<noteq> k \<Longrightarrow> server_db (server (snd (rh_hincrby t k f a s))) k' = server_db (server s) k'"
  by (simp add: rh_hincrby_def client_hincrby_def
      split: sum.split option.split redis_value.split prod.split)

lemma db_track_metric_other:
  assumes "k \<noteq> []" "hd k \<noteq> CHR ''m''"
  shows "server_db (server (track_metric c m s)) k = server_db (server s) k"
proof -
  have "k \<noteq> metric_key m (hour_stamp c)" "k \<noteq> metric_key m (day_stamp c)"
    using assms by (auto simp: metric_key_def)
  then show ?thesis
    unfolding track_metric_def Let_def
    by (simp add: db_rh_incr_other db_rh_expire_other)
qed


lemma redis_mode_same_app: "same_app s s' \<Longrightarrow> redis_mode s' = redis_mode s"
  by (simp add: same_app_def redis_mode_def)

lemma fallback_mode_same_app: "same_app s s' \<Longrightarrow> fallback_mode s' = fallback_mode s"
  by (simp add: same_app_def fallback_mode_def)

lemma redis_mode_available: "redis_mode s \<Longrightarrow> is_available (redis_helper s)"
  by (simp add: redis_mode_def)

lemma redis_mode_client: "redis_mode s \<Longrightarrow> redis_client (redis_helper s)"
  by (simp add: redis_mode_def is_available_def)

lemma redis_mode_up: "redis_mode s \<Longrightarrow> server_up (server s)"
  by (simp add: redis_mode_def)

lemmas redis_mode_guard = redis_mode_available redis_mode_client redis_mode_up

lemma py_int_Some_nonempty: "py_int a = Some n \<Longrightarrow> a \<noteq> []"
  by (auto simp: py_int_def)

lemma rh_exists_redis:
  "redis_mode s \<Longrightarrow> rh_exists t k s = (lookup t (server_db (server s)) k \<noteq> None)"
  by (simp add: rh_exists_def client_exists_def redis_mode_guard)


lemma rh_hget_redis:
  "redis_mode s \<Longrightarrow> lookup t (server_db (server s)) k = Some e \<Longrightarrow> payload e = Hash h \<Longrightarrow>
   rh_hget t k f d s = (case h f of None \<Rightarrow> d | Some v \<Rightarrow> Some v)"
  by (simp add: rh_hget_def client_hget_def redis_mode_guard split: option.split)

lemma db_rh_delete_same:
  "redis_mode s \<Longrightarrow> server_db (server (snd (rh_delete t [k] s))) k = None"
  by (simp add: rh_delete_def client_delete_def redis_mode_guard)

lemma db_rh_hincrby_same:
  "redis_mode s \<Longrightarrow> lookup t (server_db (server s)) k = Some e \<Longrightarrow> payload e = Hash h \<Longrightarrow>
   h f = Some v \<Longrightarrow> py_int v = Some n \<Longrightarrow>
   server_db (server (snd (rh_hincrby t k f a s))) k
     = Some (e\<lparr>payload := Hash (h(f \<mapsto> str_int (n + a)))\<rparr>)"
  by (simp add: rh_hincrby_def client_hincrby_def redis_mode_guard)



lemma lookup_live:
  "d k = Some e \<Longrightarrow> expire_at e = Some x \<Longrightarrow> lookup t d k = (if t > x then None else Some e)"
  by (simp add: lookup_def)


lemma lookup_SomeD: "lookup t d k = Some e \<Longrightarrow> d k = Some e"
  by (auto simp: lookup_def split: option.splits if_splits)

text \<open>The hash written by \<open>store_otp\<close>.\<close>

lemma db_hset_expire:
  assumes "redis_mode s" "otp_key_ok t s email" "0 < n"
  shows "\<exists>h. server_db (server (snd (rh_expire t (otp_key email) n
              (snd (rh_hset t (otp_key email) [(''otp'', v), (''attempts'', ''0''), (''created_at'', w)] s)))))
            (otp_key email)
          = Some \<lparr>payload = Hash h, expire_at = Some (t + seconds n)\<rparr> \<and>
          h ''otp'' = Some v \<and> h ''attempts'' = Some ''0''"
proof -
  let ?k = "otp_key email"
  let ?m = "[(''otp'', v), (''attempts'', ''0''), (''created_at'', w)]"
  let ?s1 = "snd (rh_hset t ?k ?m s)"
  have m1: "redis_mode ?s1"
    using assms(1) redis_mode_same_app [OF same_app_rh_hset] by simp
  have "\<exists>e h. lookup t (server_db (server ?s1)) ?k = Some e \<and> payload e = Hash h \<and>
          h ''otp'' = Some v \<and> h ''attempts'' = Some ''0''"
  proof (cases "lookup t (server_db (server s)) ?k")
    case None
    then show ?thesis using assms(1)
      by (simp add: rh_hset_def client_hset_def redis_mode_guard lookup_def)
  next
    case (Some e)
    then obtain h where h: "payload e = Hash h"
      using assms(2) by (auto simp: otp_key_ok_def split: redis_value.splits)
    have "server_db (server s) ?k = Some e" using Some by (rule lookup_SomeD)
    then show ?thesis using assms(1) Some h
      by (auto simp: rh_hset_def client_hset_def redis_mode_guard lookup_def
          split: option.splits if_splits)
  qed
  then obtain e h where e: "lookup t (server_db (server ?s1)) ?k = Some e" "payload e = Hash h"
    "h ''otp'' = Some v" "h ''attempts'' = Some ''0''" by blast
  have "server_db (server (snd (rh_expire t ?k n ?s1))) ?k
          = Some (e\<lparr>expire_at := Some (t + seconds n)\<rparr>)"
    using m1 e(1) assms(3) by (simp add: rh_expire_def client_expire_def redis_mode_guard)
  moreover have "e\<lparr>expire_at := Some (t + seconds n)\<rparr>
      = \<lparr>payload = Hash h, expire_at = Some (t + seconds n)\<rparr>"
    using e(2) by (cases e) simp
  ultimately show ?thesis using e(3,4) by auto
qed


lemma otp_key_shape: "otp_key email \<noteq> [] \<and> hd (otp_key email) \<noteq> CHR ''m''"
  by (simp add: otp_key_def)

lemma db_track_metric_otp:
  "server_db (server (track_metric c m s)) (otp_key email) = server_db (server s) (otp_key email)"
  by (rule db_track_metric_other) (simp_all add: otp_key_shape)

lemma store_otp_same_app:
  "is_available (redis_helper s) \<Longrightarrow> same_app s (store_otp c email v s)"
  unfolding store_otp_def Let_def
  by (simp add: same_app_trans [OF same_app_trans [OF same_app_rh_hset same_app_rh_expire]
        same_app_track_metric])

lemma store_otp_db_other:
  "k \<noteq> otp_key email \<Longrightarrow> k \<noteq> [] \<Longrightarrow> hd k \<noteq> CHR ''m'' \<Longrightarrow>
   server_db (server (store_otp c email v s)) k = server_db (server s) k"
  unfolding store_otp_def Let_def
  by (simp add: db_track_metric_other db_rh_expire_other db_rh_hset_other)

lemma store_otp_redis:
  assumes "redis_mode s" "otp_key_ok (now c) s email"
  shows "redis_otp_entry (store_otp c email v s) email
           = Some \<lparr>otp = v, expires_at = now c + seconds 300, attempts = 0\<rparr>"
proof -
  obtain h where h: "server_db (server (snd (rh_expire (now c) (otp_key email) 300
              (snd (rh_hset (now c) (otp_key email)
                 [(''otp'', v), (''attempts'', ''0''), (''created_at'', isoformat (now c))] s)))))
            (otp_key email)
          = Some \<lparr>payload = Hash h, expire_at = Some (now c + seconds 300)\<rparr>"
      "h ''otp'' = Some v" "h ''attempts'' = Some ''0''"
    using db_hset_expire [OF assms, of 300 v "isoformat (now c)"] by auto
  show ?thesis
    unfolding store_otp_def Let_def redis_otp_entry_def
    using h by (simp add: redis_mode_available [OF assms(1)] db_track_metric_otp py_int_0)
qed

lemma store_otp_fallback:
  "fallback_mode s \<Longrightarrow>
   store_otp c email v s
     = s\<lparr>otp_storage := (otp_storage s)
          (email \<mapsto> \<lparr>otp = v, expires_at = now c + seconds 300, attempts = 0\<rparr>)\<rparr>"
  by (simp add: store_otp_def fallback_mode_def)

lemma redis_otp_entryD:
  assumes "redis_otp_entry s email = Some r"
  shows "\<exists>e h a. server_db (server s) (otp_key email) = Some e \<and> payload e = Hash h \<and>
           expire_at e = Some (expires_at r) \<and> h ''otp'' = Some (otp r) \<and>
           h ''attempts'' = Some a \<and> py_int a = Some (attempts r)"
  using assms unfolding redis_otp_entry_def
  by (auto split: option.splits redis_value.splits)

lemma verify_otp_same_app:
  "is_available (redis_helper s) \<Longrightarrow> same_app s (snd (verify_otp c email x s))"
  unfolding verify_otp_def Let_def
  by (simp add: same_app_refl same_app_trans [OF same_app_rh_delete same_app_track_metric]
      same_app_trans [OF same_app_rh_hincrby same_app_track_metric] split: option.split)

lemma verify_otp_db_other:
  "k \<noteq> otp_key email \<Longrightarrow> k \<noteq> [] \<Longrightarrow> hd k \<noteq> CHR ''m'' \<Longrightarrow>
   server_db (server (snd (verify_otp c email x s))) k = server_db (server s) k"
  unfolding verify_otp_def Let_def
  by (simp add: db_track_metric_other db_rh_delete_other db_rh_hincrby_other split: option.split)

lemma verify_otp_redis_absent:
  "redis_mode s \<Longrightarrow> lookup (now c) (server_db (server s)) (otp_key email) = None \<Longrightarrow>
   verify_otp c email x s = (Inr (False, Not_found_or_expired), s)"
  by (simp add: verify_otp_def rh_exists_redis redis_mode_available)

text \<open>The reads of \<open>verify_otp\<close> on a live record.\<close>

lemma verify_otp_redis_reads:
  assumes "redis_mode s" "redis_otp_entry s email = Some r" "now c \<le> expires_at r"
  shows "rh_exists (now c) (otp_key email) s \<and>
         rh_hget (now c) (otp_key email) ''otp'' None s = Some (otp r) \<and>
         (\<exists>a. rh_hget (now c) (otp_key email) ''attempts'' (Some ''0'') s = Some a \<and>
              a \<noteq> [] \<and> py_int a = Some (attempts r))"
proof -
  obtain e h a where e: "server_db (server s) (otp_key email) = Some e" "payload e = Hash h"
    "expire_at e = Some (expires_at r)" "h ''otp'' = Some (otp r)"
    "h ''attempts'' = Some a" "py_int a = Some (attempts r)"
    using redis_otp_entryD [OF assms(2)] by blast
  have l: "lookup (now c) (server_db (server s)) (otp_key email) = Some e"
    using e(1,3) assms(3) by (simp add: lookup_live)
  show ?thesis
    using e l py_int_Some_nonempty [OF e(6)]
    by (simp add: rh_exists_redis [OF assms(1)] rh_hget_redis [OF assms(1) l e(2)])
qed

lemma verify_otp_redis_match:
  assumes "redis_mode s" "redis_otp_entry s email = Some r" "now c \<le> expires_at r" "otp r = x"
  shows "fst (verify_otp c email x s) = Inr (True, Verified_successfully) \<and>
         server_db (server (snd (verify_otp c email x s))) (otp_key email) = None"
proof -
  obtain a where a: "rh_exists (now c) (otp_key email) s"
    "rh_hget (now c) (otp_key email) ''otp'' None s = Some (otp r)"
    "rh_hget (now c) (otp_key email) ''attempts'' (Some ''0'') s = Some a"
    "a \<noteq> []" "py_int a = Some (attempts r)"
    using verify_otp_redis_reads [OF assms(1-3)] by blast
  show ?thesis
    using a assms(4)
    by (simp add: verify_otp_def Let_def truthy_def redis_mode_available [OF assms(1)]
        db_track_metric_otp db_rh_delete_same [OF assms(1)])
qed

lemma verify_otp_redis_locked:
  assumes "redis_mode s" "redis_otp_entry s email = Some r" "now c \<le> expires_at r" "otp r \<noteq> x"
    "2 \<le> attempts r"
  shows "fst (verify_otp c email x s) = Inr (False, Too_many_attempts) \<and>
         server_db (server (snd (verify_otp c email x s))) (otp_key email) = None"
proof -
  obtain a where a: "rh_exists (now c) (otp_key email) s"
    "rh_hget (now c) (otp_key email) ''otp'' None s = Some (otp r)"
    "rh_hget (now c) (otp_key email) ''attempts'' (Some ''0'') s = Some a"
    "a \<noteq> []" "py_int a = Some (attempts r)"
    using verify_otp_redis_reads [OF assms(1-3)] by blast
  show ?thesis
    using a assms(4,5)
    by (simp add: verify_otp_def Let_def truthy_def redis_mode_available [OF assms(1)]
        db_track_metric_otp db_rh_delete_same [OF assms(1)])
qed

lemma verify_otp_redis_wrong:
  assumes "redis_mode s" "redis_otp_entry s email = Some r" "now c \<le> expires_at r" "otp r \<noteq> x"
    "attempts r < 2"
  shows "fst (verify_otp c email x s) = Inr (False, Invalid_remaining (2 - attempts r)) \<and>
         redis_otp_entry (snd (verify_otp c email x s)) email
           = Some (r\<lparr>attempts := attempts r + 1\<rparr>)"
proof -
  obtain e h a where e: "server_db (server s) (otp_key email) = Some e" "payload e = Hash h"
    "expire_at e = Some (expires_at r)" "h ''otp'' = Some (otp r)"
    "h ''attempts'' = Some a" "py_int a = Some (attempts r)"
    using redis_otp_entryD [OF assms(2)] by blast
  have l: "lookup (now c) (server_db (server s)) (otp_key email) = Some e"
    using e(1,3) assms(3) by (simp add: lookup_live)
  have rd: "rh_exists (now c) (otp_key email) s"
    "rh_hget (now c) (otp_key email) ''otp'' None s = Some (otp r)"
    "rh_hget (now c) (otp_key email) ''attempts'' (Some ''0'') s = Some a"
    using e l by (simp_all add: rh_exists_redis [OF assms(1)] rh_hget_redis [OF assms(1) l e(2)])
  have ne: "a \<noteq> []" using e(6) by (rule py_int_Some_nonempty)
  have db: "server_db (server (snd (rh_hincrby (now c) (otp_key email) ''attempts'' 1 s)))
              (otp_key email)
            = Some (e\<lparr>payload := Hash (h(''attempts'' \<mapsto> str_int (attempts r + 1)))\<rparr>)"
    by (rule db_rh_hincrby_same [OF assms(1) l e(2) e(5) e(6)])
  have v: "verify_otp c email x s
      = (Inr (False, Invalid_remaining (2 - attempts r)),
         track_metric c ''otp_verification_failed''
           (snd (rh_hincrby (now c) (otp_key email) ''attempts'' 1 s)))"
    using rd ne e(6) assms(4,5)
    by (simp add: verify_otp_def Let_def truthy_def redis_mode_available [OF assms(1)])
  show ?thesis
    unfolding v using e(3,4)
    by (simp add: redis_otp_entry_def db_track_metric_otp db py_int_str_int)
qed

section \<open>Verification and issuance in either store\<close>


lemma otp_record_redis: "redis_mode s \<Longrightarrow> otp_record s email = redis_otp_entry s email"
  by (simp add: otp_record_def redis_mode_available)

lemma otp_record_fallback: "fallback_mode s \<Longrightarrow> otp_record s email = otp_storage s email"
  by (simp add: otp_record_def fallback_mode_def)

lemma redis_otp_entry_None:
  "server_db (server s) (otp_key email) = None \<Longrightarrow> redis_otp_entry s email = None"
  by (simp add: redis_otp_entry_def)

lemma verify_otp_redis_mode:
  "redis_mode s \<Longrightarrow> redis_mode (snd (verify_otp c email x s))"
  using redis_mode_same_app [OF verify_otp_same_app] by (simp add: redis_mode_available)

lemma store_otp_redis_mode:
  "redis_mode s \<Longrightarrow> redis_mode (store_otp c email v s)"
  using redis_mode_same_app [OF store_otp_same_app] by (simp add: redis_mode_available)

lemma verify_otp_fallback_mode:
  "fallback_mode s \<Longrightarrow> fallback_mode (snd (verify_otp c email x s))"
  by (simp add: fallback_mode_def verify_otp_def split: option.split)

lemma store_otp_fallback_mode:
  "fallback_mode s \<Longrightarrow> fallback_mode (store_otp c email v s)"
  by (simp add: fallback_mode_def store_otp_def)

lemma verify_otp_fallback_absent:
  "fallback_mode s \<Longrightarrow> otp_storage s email = None \<Longrightarrow>
   verify_otp c email x s = (Inr (False, Otp_not_found), s)"
  by (simp add: verify_otp_def fallback_mode_def)

lemma verify_otp_fallback_match:
  "fallback_mode s \<Longrightarrow> otp_storage s email = Some r \<Longrightarrow> now c \<le> expires_at r \<Longrightarrow>
   attempts r < 3 \<Longrightarrow> otp r = x \<Longrightarrow>
   verify_otp c email x s
     = (Inr (True, Verified_successfully), s\<lparr>otp_storage := (otp_storage s)(email := None)\<rparr>)"
  by (simp add: verify_otp_def fallback_mode_def)

lemma verify_otp_fallback_wrong:
  "fallback_mode s \<Longrightarrow> otp_storage s email = Some r \<Longrightarrow> now c \<le> expires_at r \<Longrightarrow>
   attempts r < 3 \<Longrightarrow> otp r \<noteq> x \<Longrightarrow>
   verify_otp c email x s
     = (Inr (False, Invalid_otp),
        s\<lparr>otp_storage := (otp_storage s)(email \<mapsto> r\<lparr>attempts := attempts r + 1\<rparr>)\<rparr>)"
  by (simp add: verify_otp_def fallback_mode_def)

lemma verify_otp_fallback_expired:
  "fallback_mode s \<Longrightarrow> otp_storage s email = Some r \<Longrightarrow> expires_at r < now c \<Longrightarrow>
   verify_otp c email x s
     = (Inr (False, Otp_has_expired), s\<lparr>otp_storage := (otp_storage s)(email := None)\<rparr>)"
  by (simp add: verify_otp_def fallback_mode_def)

lemma verify_otp_fallback_locked:
  "fallback_mode s \<Longrightarrow> otp_storage s email = Some r \<Longrightarrow> now c \<le> expires_at r \<Longrightarrow>
   3 \<le> attempts r \<Longrightarrow>
   verify_otp c email x s
     = (Inr (False, Too_many_attempts), s\<lparr>otp_storage := (otp_storage s)(email := None)\<rparr>)"
  by (simp add: verify_otp_def fallback_mode_def)

text \<open>Verification of the stored code consumes the record, in either store.\<close>

lemma verify_otp_match:
  assumes "redis_mode s \<or> fallback_mode s" "otp_record s email = Some r" "now c \<le> expires_at r"
    "attempts r < 3" "otp r = x"
  shows "fst (verify_otp c email x s) = Inr (True, Verified_successfully) \<and>
         otp_record (snd (verify_otp c email x s)) email = None \<and>
         (redis_mode (snd (verify_otp c email x s)) \<or> fallback_mode (snd (verify_otp c email x s)))"
  using assms(1)
proof
  assume m: "redis_mode s"
  then have r: "redis_otp_entry s email = Some r" using assms(2) by (simp add: otp_record_redis)
  show ?thesis
    using verify_otp_redis_match [OF m r assms(3) assms(5)] verify_otp_redis_mode [OF m, of c email x]
    by (simp add: otp_record_redis redis_otp_entry_None)
next
  assume m: "fallback_mode s"
  then have r: "otp_storage s email = Some r" using assms(2) by (simp add: otp_record_fallback)
  show ?thesis
    using m by (simp add: verify_otp_fallback_match [OF m r assms(3) assms(4) assms(5)]
        otp_record_def fallback_mode_def)
qed


text \<open>
  Claim C2. For every email whose live OTP record has \<open>attempts = 2\<close> (two failures
  so far), a call of \<open>verify_otp\<close> with the stored code returns "OTP verified
  successfully" and deletes the record; it does not return "Too many incorrect
  attempts". This holds in Redis mode, where the comparison of the codes comes first, and
  in fallback mode, where the count is tested first but against the count before the
  call, which is 2.
\<close>

theorem verify_otp_correct_code_on_third_attempt:
  assumes "redis_mode s \<or> fallback_mode s"
    and "otp_record s email = Some r" and "attempts r = 2" and "now c \<le> expires_at r"
    and "otp r = submitted_otp"
  shows "fst (verify_otp c email submitted_otp s) = Inr (True, Verified_successfully) \<and>
         otp_record (snd (verify_otp c email submitted_otp s)) email = None"
  using verify_otp_match [OF assms(1) assms(2) assms(4) _ assms(5)] assms(3) by simp


theorem verify_otp_correct_code_on_third_attempt_witness:
  "fst (verify_otp (clock_at 3000000) ''a@x.com'' ''123456''
          (snd (verify_otp (clock_at 2000000) ''a@x.com'' ''000000''
            (snd (verify_otp (clock_at 1000000) ''a@x.com'' ''000000''
              (store_otp (clock_at 0) ''a@x.com'' ''123456'' (start_state True True)))))))
     = Inr (True, Verified_successfully) \<and>
   otp_record (snd (verify_otp (clock_at 3000000) ''a@x.com'' ''123456''
          (snd (verify_otp (clock_at 2000000) ''a@x.com'' ''000000''
            (snd (verify_otp (clock_at 1000000) ''a@x.com'' ''000000''
              (store_otp (clock_at 0) ''a@x.com'' ''123456'' (start_state True True)))))))) ''a@x.com''
     = None"
proof -
  let ?s = "snd (verify_otp (clock_at 2000000) ''a@x.com'' ''000000''
            (snd (verify_otp (clock_at 1000000) ''a@x.com'' ''000000''
              (store_otp (clock_at 0) ''a@x.com'' ''123456'' (start_state True True)))))"
  let ?r = "\<lparr>otp = ''123456'', expires_at = 300000000, attempts = 2\<rparr>"
  have 1: "redis_mode ?s \<or> fallback_mode ?s" by code_simp
  have 2: "otp_record ?s ''a@x.com'' = Some ?r" by code_simp
  have 3: "attempts ?r = 2" by simp
  have 4: "now (clock_at 3000000) \<le> expires_at ?r" by (simp add: clock_at_def)
  have 5: "otp ?r = ''123456''" by simp
  show ?thesis
    by (rule verify_otp_correct_code_on_third_attempt [OF 1 2 3 4 5])
qed

lemma verify_otp_other_code:
  assumes "redis_mode s \<or> fallback_mode s" "otp_record s email = Some r" "otp r \<noteq> x"
  shows "fst (verify_otp c email x s) \<noteq> Inr (True, Verified_successfully)"
  using assms(1)
proof
  assume m: "redis_mode s"
  then have r: "redis_otp_entry s email = Some r" using assms(2) by (simp add: otp_record_redis)
  show ?thesis
  proof (cases "now c \<le> expires_at r")
    case True
    show ?thesis
    proof (cases "attempts r < 2")
      case True
      then show ?thesis
        using verify_otp_redis_wrong [OF m r \<open>now c \<le> expires_at r\<close> assms(3)] by simp
    next
      case False
      then show ?thesis
        using verify_otp_redis_locked [OF m r \<open>now c \<le> expires_at r\<close> assms(3)] by simp
    qed
  next
    case False
    obtain e where e: "server_db (server s) (otp_key email) = Some e"
      "expire_at e = Some (expires_at r)"
      using redis_otp_entryD [OF r] by blast
    have "lookup (now c) (server_db (server s)) (otp_key email) = None"
      using False e by (simp add: lookup_def)
    then show ?thesis using verify_otp_redis_absent [OF m] by simp
  qed
next
  assume m: "fallback_mode s"
  then have r: "otp_storage s email = Some r" using assms(2) by (simp add: otp_record_fallback)
  show ?thesis using m r assms(3) by (simp add: verify_otp_def fallback_mode_def)
qed





section \<open>The two stores compared\<close>

lemma otp_key_inj: "otp_key a = otp_key b \<longleftrightarrow> a = b"
  by (simp add: otp_key_def)

lemma redis_dead_mono: "redis_dead t s email \<Longrightarrow> t \<le> t' \<Longrightarrow> redis_dead t' s email"
  by (auto simp: redis_dead_def split: option.splits)

lemma fallback_dead_mono: "fallback_dead t ro \<Longrightarrow> t \<le> t' \<Longrightarrow> fallback_dead t' ro"
  by (auto simp: fallback_dead_def split: option.splits)

lemma rel_at_mono:
  assumes "rel_at t sr sf email" "t \<le> t'"
  shows "rel_at t' sr sf email"
proof (cases "redis_dead t sr email \<and> fallback_dead t (otp_storage sf email)")
  case True
  then have "redis_dead t' sr email" "fallback_dead t' (otp_storage sf email)"
    using assms(2) by (simp_all add: redis_dead_mono [of t] fallback_dead_mono [of t])
  then show ?thesis by (simp add: rel_at_def)
next
  case False
  then show ?thesis using assms(1) by (auto simp: rel_at_def)
qed

lemma rel_at_frame:
  "server_db (server sr') (otp_key email) = server_db (server sr) (otp_key email) \<Longrightarrow>
   otp_storage sf' email = otp_storage sf email \<Longrightarrow>
   rel_at t sr' sf' email = rel_at t sr sf email"
proof -
  assume a: "server_db (server sr') (otp_key email) = server_db (server sr) (otp_key email)"
    and b: "otp_storage sf' email = otp_storage sf email"
  have "redis_dead t sr' email = redis_dead t sr email"
    by (simp add: redis_dead_def a)
  moreover have "redis_otp_entry sr' email = redis_otp_entry sr email"
    by (simp add: redis_otp_entry_def a)
  ultimately show ?thesis
    unfolding rel_at_def by (simp only: b)
qed

lemma redis_dead_lookup:
  "redis_dead t s email \<Longrightarrow> t \<le> t' \<Longrightarrow> lookup t' (server_db (server s)) (otp_key email) = None"
  by (auto simp: redis_dead_def lookup_def split: option.splits)

lemma redis_dead_free:
  "server_db (server s) (otp_key email) = None \<Longrightarrow> redis_dead t s email"
  by (simp add: redis_dead_def)

lemma verify_otp_fallback_dead:
  assumes "fallback_mode s" "fallback_dead t (otp_storage s email)" "t \<le> now c"
  shows "\<exists>m. fst (verify_otp c email x s) = Inr (False, m) \<and>
             otp_storage (snd (verify_otp c email x s)) email = None"
proof (cases "otp_storage s email")
  case None
  then show ?thesis using assms(1) by (simp add: verify_otp_fallback_absent)
next
  case (Some r)
  then have "expires_at r < t \<or> 3 \<le> attempts r" using assms(2) by (simp add: fallback_dead_def)
  then show ?thesis using assms(1,3) Some by (auto simp: verify_otp_def fallback_mode_def)
qed

lemma verify_otp_fallback_other:
  "fallback_mode s \<Longrightarrow> e \<noteq> email \<Longrightarrow>
   otp_storage (snd (verify_otp c email x s)) e = otp_storage s e"
  by (simp add: verify_otp_def fallback_mode_def split: option.split)

lemma verify_step_rel:
  assumes mr: "redis_mode sr" and mf: "fallback_mode sf" and rel: "rel_at t sr sf email"
    and t: "t \<le> now c"
  shows "same_flag (fst (verify_otp c email x sr)) (fst (verify_otp c email x sf)) \<and>
         rel_at (now c) (snd (verify_otp c email x sr)) (snd (verify_otp c email x sf)) email"
proof (cases "redis_dead t sr email \<and> fallback_dead t (otp_storage sf email)")
  case True
  then have l: "lookup (now c) (server_db (server sr)) (otp_key email) = None"
    using t by (simp add: redis_dead_lookup [of t])
  have r: "verify_otp c email x sr = (Inr (False, Not_found_or_expired), sr)"
    by (rule verify_otp_redis_absent [OF mr l])
  obtain m where f: "fst (verify_otp c email x sf) = Inr (False, m)"
    "otp_storage (snd (verify_otp c email x sf)) email = None"
    using verify_otp_fallback_dead [OF mf _ t] True by blast
  have "redis_dead (now c) sr email" using True t by (simp add: redis_dead_mono [of t])
  then show ?thesis using r f by (simp add: same_flag_def rel_at_def fallback_dead_def)
next
  case False
  then obtain r where r: "redis_otp_entry sr email = Some r" "otp_storage sf email = Some r"
    "attempts r < 3"
    using rel by (auto simp: rel_at_def split: option.splits)
  show ?thesis
  proof (cases "now c \<le> expires_at r")
    case live: True
    show ?thesis
    proof (cases "otp r = x")
      case True
      have "fst (verify_otp c email x sr) = Inr (True, Verified_successfully)"
        "server_db (server (snd (verify_otp c email x sr))) (otp_key email) = None"
        using verify_otp_redis_match [OF mr r(1) live True] by simp_all
      moreover have "verify_otp c email x sf
          = (Inr (True, Verified_successfully), sf\<lparr>otp_storage := (otp_storage sf)(email := None)\<rparr>)"
        by (rule verify_otp_fallback_match [OF mf r(2) live r(3) True])
      ultimately show ?thesis
        by (simp add: same_flag_def rel_at_def fallback_dead_def redis_dead_free)
    next
      case wrong: False
      have f: "verify_otp c email x sf
          = (Inr (False, Invalid_otp),
             sf\<lparr>otp_storage := (otp_storage sf)(email \<mapsto> r\<lparr>attempts := attempts r + 1\<rparr>)\<rparr>)"
        by (rule verify_otp_fallback_wrong [OF mf r(2) live r(3) wrong])
      show ?thesis
      proof (cases "attempts r < 2")
        case True
        have "fst (verify_otp c email x sr) = Inr (False, Invalid_remaining (2 - attempts r))"
          "redis_otp_entry (snd (verify_otp c email x sr)) email = Some (r\<lparr>attempts := attempts r + 1\<rparr>)"
          using verify_otp_redis_wrong [OF mr r(1) live wrong True] by simp_all
        then show ?thesis using f True by (simp add: same_flag_def rel_at_def)
      next
        case False
        then have "2 \<le> attempts r" by simp
        then have "fst (verify_otp c email x sr) = Inr (False, Too_many_attempts)"
          "server_db (server (snd (verify_otp c email x sr))) (otp_key email) = None"
          using verify_otp_redis_locked [OF mr r(1) live wrong] by simp_all
        then show ?thesis using f False
          by (simp add: same_flag_def rel_at_def fallback_dead_def redis_dead_free)
      qed
    qed
  next
    case dead: False
    obtain e where e: "server_db (server sr) (otp_key email) = Some e"
      "expire_at e = Some (expires_at r)"
      using redis_otp_entryD [OF r(1)] by blast
    have l: "lookup (now c) (server_db (server sr)) (otp_key email) = None"
      using dead e by (simp add: lookup_def)
    have rr: "verify_otp c email x sr = (Inr (False, Not_found_or_expired), sr)"
      by (rule verify_otp_redis_absent [OF mr l])
    have ff: "verify_otp c email x sf
        = (Inr (False, Otp_has_expired), sf\<lparr>otp_storage := (otp_storage sf)(email := None)\<rparr>)"
      using dead by (simp add: verify_otp_fallback_expired [OF mf r(2)])
    have "redis_dead (now c) sr email" using e dead by (simp add: redis_dead_def)
    then show ?thesis using rr ff by (simp add: same_flag_def rel_at_def fallback_dead_def)
  qed
qed

lemma verify_step_related:
  assumes "otp_related t sr sf" "t \<le> now c"
  shows "same_flag (fst (verify_otp c email x sr)) (fst (verify_otp c email x sf)) \<and>
         otp_related (now c) (snd (verify_otp c email x sr)) (snd (verify_otp c email x sf))"
proof -
  have mr: "redis_mode sr" and mf: "fallback_mode sf" and rel: "\<And>e. rel_at t sr sf e"
    using assms(1) by (simp_all add: otp_related_def)
  have here: "same_flag (fst (verify_otp c email x sr)) (fst (verify_otp c email x sf))"
    "rel_at (now c) (snd (verify_otp c email x sr)) (snd (verify_otp c email x sf)) email"
    using verify_step_rel [OF mr mf rel assms(2)] by simp_all
  have "rel_at (now c) (snd (verify_otp c email x sr)) (snd (verify_otp c email x sf)) e" for e
  proof (cases "e = email")
    case True
    then show ?thesis using here(2) by simp
  next
    case False
    have a: "server_db (server (snd (verify_otp c email x sr))) (otp_key e)
            = server_db (server sr) (otp_key e)"
      using False by (simp add: verify_otp_db_other otp_key_inj otp_key_shape)
    have b: "otp_storage (snd (verify_otp c email x sf)) e = otp_storage sf e"
      by (rule verify_otp_fallback_other [OF mf False])
    show ?thesis
      using rel_at_mono [OF rel assms(2)] by (simp add: rel_at_frame [OF a b])
  qed
  then show ?thesis
    using here(1) verify_otp_redis_mode [OF mr] verify_otp_fallback_mode [OF mf]
    by (simp add: otp_related_def)
qed

lemma rel_at_key_ok:
  assumes "rel_at t sr sf email" "t \<le> t'"
  shows "otp_key_ok t' sr email"
proof (cases "redis_dead t sr email")
  case True
  then show ?thesis using redis_dead_lookup [OF True assms(2)] by (simp add: otp_key_ok_def)
next
  case False
  then obtain r where "redis_otp_entry sr email = Some r"
    using assms(1) by (auto simp: rel_at_def split: option.splits)
  then obtain e h where "server_db (server sr) (otp_key email) = Some e" "payload e = Hash h"
    using redis_otp_entryD by blast
  then show ?thesis
    by (auto simp: otp_key_ok_def lookup_def split: option.splits)
qed

lemma issue_step_related:
  assumes "otp_related t sr sf" "t \<le> now c"
  shows "otp_related (now c) (store_otp c email v sr) (store_otp c email v sf)"
proof -
  have mr: "redis_mode sr" and mf: "fallback_mode sf" and rel: "\<And>e. rel_at t sr sf e"
    using assms(1) by (simp_all add: otp_related_def)
  have ok: "otp_key_ok (now c) sr email" by (rule rel_at_key_ok [OF rel assms(2)])
  have "rel_at (now c) (store_otp c email v sr) (store_otp c email v sf) e" for e
  proof (cases "e = email")
    case True
    then show ?thesis
      by (simp add: rel_at_def store_otp_redis [OF mr ok] store_otp_fallback [OF mf])
  next
    case False
    have a: "server_db (server (store_otp c email v sr)) (otp_key e) = server_db (server sr) (otp_key e)"
      using False by (simp add: store_otp_db_other otp_key_inj otp_key_shape)
    have b: "otp_storage (store_otp c email v sf) e = otp_storage sf e"
      using False by (simp add: store_otp_fallback [OF mf])
    show ?thesis
      using rel_at_mono [OF rel assms(2)] by (simp add: rel_at_frame [OF a b])
  qed
  then show ?thesis
    using store_otp_redis_mode [OF mr] store_otp_fallback_mode [OF mf]
    by (simp add: otp_related_def)
qed

text \<open>
  Claim C3, as amended. The claim is that every sequence of issue and verify calls gets
  identical outward results from the two stores. They are not identical (the
  counterexample follows the theorem). What holds: from related states (for
  instance both stores empty), on a clock that does not go back and with the Redis
  server answering, every verify call returns in both stores, and it succeeds in Redis
  mode exactly when it succeeds in fallback mode.
\<close>

theorem stores_agree_on_success:
  "otp_related t sr sf \<Longrightarrow> nondecreasing t ops \<Longrightarrow>
   list_all2 same_flag (run_otp_ops ops sr) (run_otp_ops ops sf)"
proof (induction ops arbitrary: t sr sf)
  case Nil
  then show ?case by simp
next
  case (Cons a ops)
  obtain c x where a: "a = (c, x)" by (cases a)
  have t: "t \<le> now c" and nd: "nondecreasing (now c) ops"
    using Cons.prems(2) a by simp_all
  show ?case
  proof (cases x)
    case (Issue email v)
    show ?thesis
      using Cons.IH [OF issue_step_related [OF Cons.prems(1) t] nd] a Issue by simp
  next
    case (Verify email y)
    have st: "same_flag (fst (verify_otp c email y sr)) (fst (verify_otp c email y sf))"
      "otp_related (now c) (snd (verify_otp c email y sr)) (snd (verify_otp c email y sf))"
      using verify_step_related [OF Cons.prems(1) t] by simp_all
    show ?thesis
      using Cons.IH [OF st(2) nd] st(1) a Verify by (simp add: split_beta)
  qed
qed

lemma start_states_related: "otp_related t (start_state True True) (start_state False False)"
  by (simp add: otp_related_def rel_at_def redis_dead_def fallback_dead_def redis_mode_def
      fallback_mode_def start_state_def connect_def is_available_def)

theorem stores_agree_on_success_witness:
  "list_all2 same_flag
     (run_otp_ops
        [(clock_at 0, Issue ''a@x.com'' ''123456''),
         (clock_at 1000000, Verify ''a@x.com'' ''000000''),
         (clock_at 2000000, Verify ''a@x.com'' ''123456''),
         (clock_at 3000000, Verify ''a@x.com'' ''123456'')]
        (start_state True True))
     (run_otp_ops
        [(clock_at 0, Issue ''a@x.com'' ''123456''),
         (clock_at 1000000, Verify ''a@x.com'' ''000000''),
         (clock_at 2000000, Verify ''a@x.com'' ''123456''),
         (clock_at 3000000, Verify ''a@x.com'' ''123456'')]
        (start_state False False))"
proof -
  have nd: "nondecreasing 0
     [(clock_at 0, Issue ''a@x.com'' ''123456''),
      (clock_at 1000000, Verify ''a@x.com'' ''000000''),
      (clock_at 2000000, Verify ''a@x.com'' ''123456''),
      (clock_at 3000000, Verify ''a@x.com'' ''123456'')]"
    by (simp add: clock_at_def)
  show ?thesis
    by (rule stores_agree_on_success [OF start_states_related nd])
qed

text \<open>
  The claim C3 as stated fails: after one issue, three wrong codes are answered
  InvalidCode(2), InvalidCode(1), TooManyAttempts in Redis mode and three times
  InvalidCode without a count in fallback mode.
\<close>

theorem stores_differ_on_third_wrong_code:
  "map outward
     (run_otp_ops
        [(clock_at 0, Issue ''a@x.com'' ''123456''),
         (clock_at 1000000, Verify ''a@x.com'' ''000000''),
         (clock_at 2000000, Verify ''a@x.com'' ''000000''),
         (clock_at 3000000, Verify ''a@x.com'' ''000000'')]
        (start_state True True))
     = [Inr (InvalidCode (Some 2)), Inr (InvalidCode (Some 1)), Inr TooManyAttempts] \<and>
   map outward
     (run_otp_ops
        [(clock_at 0, Issue ''a@x.com'' ''123456''),
         (clock_at 1000000, Verify ''a@x.com'' ''000000''),
         (clock_at 2000000, Verify ''a@x.com'' ''000000''),
         (clock_at 3000000, Verify ''a@x.com'' ''000000'')]
        (start_state False False))
     = [Inr (InvalidCode None), Inr (InvalidCode None), Inr (InvalidCode None)]"
  by code_simp

section \<open>The rate-limit blocks of index\<close>










lemma rate_limit_block_no_redis:
  assumes "\<not> redis_mode s"
  shows "rate_limit_block prefix limit window t ip s = (Inr Admitted, s)"
proof (cases "is_available (redis_helper s)")
  case True
  then have down: "\<not> server_up (server s)" using assms by (simp add: redis_mode_def)
  have "rh_get t (prefix @ ip) None s = None"
    using down by (simp add: rh_get_def client_get_def)
  moreover have "rh_set t (prefix @ ip) ''1'' (Some window) s = (False, s)"
    using down by (simp add: rh_set_def client_set_def)
  ultimately show ?thesis using True by (simp add: rate_limit_block_def)
next
  case False
  then show ?thesis by (simp add: rate_limit_block_def)
qed

text \<open>
  Claim C10. When the Redis store is unavailable, neither rate-limit scope is enforced:
  every form-step and every otp-step request is admitted, however many requests the
  client has made, and nothing is recorded. This covers the fallback mode (the start-up
  probe failed) and a server that stopped answering after start-up.
\<close>

theorem no_rate_limit_without_redis:
  assumes "\<not> redis_mode s"
  shows "form_requests ts ip s = (map (\<lambda>t. Inr Admitted) ts, s) \<and>
         otp_requests ts ip s = (map (\<lambda>t. Inr Admitted) ts, s)"
proof
  show "form_requests ts ip s = (map (\<lambda>t. Inr Admitted) ts, s)"
    by (induction ts)
      (simp_all add: index_form_rate_limit_def rate_limit_block_no_redis [OF assms])
  show "otp_requests ts ip s = (map (\<lambda>t. Inr Admitted) ts, s)"
    by (induction ts)
      (simp_all add: index_otp_rate_limit_def rate_limit_block_no_redis [OF assms])
qed

theorem no_rate_limit_without_redis_witness:
  "form_requests (replicate 50 0) ''10.0.0.1'' (start_state False False)
     = (map (\<lambda>t. Inr Admitted) (replicate 50 0), start_state False False) \<and>
   otp_requests (replicate 50 0) ''10.0.0.1'' (start_state True False)
     = (map (\<lambda>t. Inr Admitted) (replicate 50 0), start_state True False)"
proof -
  have 1: "\<not> redis_mode (start_state False False)" by code_simp
  have 2: "\<not> redis_mode (start_state True False)" by code_simp
  show ?thesis
    using no_rate_limit_without_redis [OF 1, of "replicate 50 0" "''10.0.0.1''"]
      no_rate_limit_without_redis [OF 2, of "replicate 50 0" "''10.0.0.1''"]
    by simp
qed

section \<open>Failures of the store\<close>

lemma except_branch: "isl x \<Longrightarrow> (case x of Inl e \<Rightarrow> a | Inr r \<Rightarrow> f r) = a"
  by (cases x) simp_all

text \<open>
  Claim C8. No method of RedisHelper (get, set, hget, hset, expire, delete, exists, incr,
  hincrby) lets an exception reach its caller: whenever the helper is unavailable or the
  client call raises (\<open>isl\<close>: the call returned an exception), the method returns its
  fallback value, which is the supplied default, False or None, and leaves the state as
  it was. The methods are total functions with plain results: the exceptions of the
  client are the only ones in their bodies, and each is consumed by the
  \<open>except Exception\<close> branch.
\<close>

theorem redis_helper_methods_return_fallback_value:
  "(\<not> is_available (redis_helper s) \<or> isl (client_get t k (server s)) \<longrightarrow>
      rh_get t k d s = d) \<and>
   (\<not> is_available (redis_helper s) \<or> isl (client_set t k v ex (server s)) \<longrightarrow>
      rh_set t k v ex s = (False, s)) \<and>
   (\<not> is_available (redis_helper s) \<or> isl (client_hget t k f (server s)) \<longrightarrow>
      rh_hget t k f d s = d) \<and>
   (\<not> is_available (redis_helper s) \<or> isl (client_hset t k m (server s)) \<longrightarrow>
      rh_hset t k m s = (False, s)) \<and>
   (\<not> is_available (redis_helper s) \<or> isl (client_expire t k n (server s)) \<longrightarrow>
      rh_expire t k n s = (False, s)) \<and>
   (\<not> is_available (redis_helper s) \<or> isl (client_delete t ks (server s)) \<longrightarrow>
      rh_delete t ks s = (False, s)) \<and>
   (\<not> is_available (redis_helper s) \<or> isl (client_exists t k (server s)) \<longrightarrow>
      rh_exists t k s = False) \<and>
   (\<not> is_available (redis_helper s) \<or> isl (client_incr t k a (server s)) \<longrightarrow>
      rh_incr t k a s = (None, s)) \<and>
   (\<not> is_available (redis_helper s) \<or> isl (client_hincrby t k f a (server s)) \<longrightarrow>
      rh_hincrby t k f a s = (None, s))"
proof -
  have 1: "\<not> is_available (redis_helper s) \<or> isl (client_get t k (server s)) \<longrightarrow> rh_get t k d s = d"
    by (auto simp: rh_get_def except_branch)
  have 2: "\<not> is_available (redis_helper s) \<or> isl (client_set t k v ex (server s)) \<longrightarrow>
      rh_set t k v ex s = (False, s)"
    by (auto simp: rh_set_def except_branch)
  have 3: "\<not> is_available (redis_helper s) \<or> isl (client_hget t k f (server s)) \<longrightarrow>
      rh_hget t k f d s = d"
    by (auto simp: rh_hget_def except_branch)
  have 4: "\<not> is_available (redis_helper s) \<or> isl (client_hset t k m (server s)) \<longrightarrow>
      rh_hset t k m s = (False, s)"
    by (auto simp: rh_hset_def except_branch)
  have 5: "\<not> is_available (redis_helper s) \<or> isl (client_expire t k n (server s)) \<longrightarrow>
      rh_expire t k n s = (False, s)"
    by (auto simp: rh_expire_def except_branch)
  have 6: "\<not> is_available (redis_helper s) \<or> isl (client_delete t ks (server s)) \<longrightarrow>
      rh_delete t ks s = (False, s)"
    by (auto simp: rh_delete_def except_branch)
  have 7: "\<not> is_available (redis_helper s) \<or> isl (client_exists t k (server s)) \<longrightarrow>
      rh_exists t k s = False"
    by (auto simp: rh_exists_def except_branch)
  have 8: "\<not> is_available (redis_helper s) \<or> isl (client_incr t k a (server s)) \<longrightarrow>
      rh_incr t k a s = (None, s)"
    by (auto simp: rh_incr_def except_branch)
  have 9: "\<not> is_available (redis_helper s) \<or> isl (client_hincrby t k f a (server s)) \<longrightarrow>
      rh_hincrby t k f a s = (None, s)"
    by (auto simp: rh_hincrby_def except_branch)
  show ?thesis
    using 1 2 3 4 5 6 7 8 9 by blast
qed

lemma client_down:
  "\<not> server_up srv \<Longrightarrow>
   isl (client_get t k srv) \<and> isl (client_set t k v ex srv) \<and> isl (client_hget t k f srv) \<and>
   isl (client_hset t k m srv) \<and> isl (client_expire t k n srv) \<and> isl (client_delete t ks srv) \<and>
   isl (client_exists t k srv) \<and> isl (client_incr t k a srv) \<and> isl (client_hincrby t k f a srv)"
  by (simp add: client_defs)

theorem redis_helper_methods_return_fallback_value_witness:
  "rh_get 0 ''k'' (Some ''d'') (start_state True False) = Some ''d'' \<and>
   rh_set 0 ''k'' ''v'' (Some 30) (start_state True False) = (False, start_state True False) \<and>
   rh_hget 0 ''k'' ''f'' (Some ''0'') (start_state True False) = Some ''0'' \<and>
   rh_hset 0 ''k'' [(''f'', ''v'')] (start_state True False) = (False, start_state True False) \<and>
   rh_expire 0 ''k'' 300 (start_state True False) = (False, start_state True False) \<and>
   rh_delete 0 [''k''] (start_state True False) = (False, start_state True False) \<and>
   rh_exists 0 ''k'' (start_state True False) = False \<and>
   rh_incr 0 ''k'' 1 (start_state True False) = (None, start_state True False) \<and>
   rh_hincrby 0 ''k'' ''f'' 1 (start_state True False) = (None, start_state True False)"
proof -
  have down: "\<not> server_up (server (start_state True False))"
    by (simp add: start_state_def)
  show ?thesis
    using redis_helper_methods_return_fallback_value [of "start_state True False" 0 "''k''"
        "Some ''d''" "''v''" "Some 30" "''f''" "[(''f'', ''v'')]" 300 "[''k'']" 1]
      redis_helper_methods_return_fallback_value [of "start_state True False" 0 "''k''"
        "Some ''0''" "''v''" "Some 30" "''f''" "[(''f'', ''v'')]" 300 "[''k'']" 1]
      client_down [OF down]
    by simp
qed


lemma same_app_helper: "same_app s s' \<Longrightarrow> redis_helper s' = redis_helper s"
  by (simp add: same_app_def)

lemma same_app_storage: "same_app s s' \<Longrightarrow> otp_storage s' = otp_storage s"
  by (simp add: same_app_def)

lemma store_otp_helper: "redis_helper (store_otp c email v s) = redis_helper s"
proof (cases "is_available (redis_helper s)")
  case True
  then show ?thesis by (rule same_app_helper [OF store_otp_same_app])
next
  case False
  then show ?thesis by (simp add: store_otp_def)
qed

lemma verify_otp_helper: "redis_helper (snd (verify_otp c email x s)) = redis_helper s"
proof (cases "is_available (redis_helper s)")
  case True
  then show ?thesis by (rule same_app_helper [OF verify_otp_same_app])
next
  case False
  then show ?thesis by (simp add: verify_otp_def split: option.split)
qed

lemma track_metric_down:
  assumes "\<not> server_up (server s)"
  shows "track_metric c m s = s"
proof -
  have i: "rh_incr t k a s = (None, s)" for t k a
    using assms by (simp add: rh_incr_def client_incr_def)
  have e: "rh_expire t k n s = (False, s)" for t k n
    using assms by (simp add: rh_expire_def client_expire_def)
  show ?thesis by (simp add: track_metric_def i e)
qed

lemma store_otp_down:
  assumes "is_available (redis_helper s)" "\<not> server_up (server s)"
  shows "store_otp c email v s = s"
proof -
  have h: "rh_hset t k m s = (False, s)" for t k m
    using assms(2) by (simp add: rh_hset_def client_hset_def)
  have e: "rh_expire t k n s = (False, s)" for t k n
    using assms(2) by (simp add: rh_expire_def client_expire_def)
  show ?thesis using assms(1) by (simp add: store_otp_def h e track_metric_down [OF assms(2)])
qed

lemma verify_otp_down:
  assumes "is_available (redis_helper s)" "\<not> server_up (server s)"
  shows "verify_otp c email x s = (Inr (False, Not_found_or_expired), s)"
proof -
  have "\<not> rh_exists (now c) (otp_key email) s"
    using assms(2) by (simp add: rh_exists_def client_exists_def)
  then show ?thesis using assms(1) by (simp add: verify_otp_def)
qed

text \<open>
  Claim C9, as amended. The claim is that unavailability is not sticky, so that a server
  which recovers or fails after start-up changes the store that OTP operations use. The
  code decides otherwise: \<open>is_available\<close> reads the flag that \<open>_connect\<close> set at
  start-up, and no operation changes \<open>redis_helper\<close>. A call that fails affects that
  call only, but the branch taken by \<open>store_otp\<close> and \<open>verify_otp\<close> follows the flag
  alone: with the flag off they use \<open>otp_storage\<close> and never touch the server, with
  the flag on they never touch \<open>otp_storage\<close>; and with the flag on and the server
  silent a code is stored nowhere and a verification answers "not found or expired".
\<close>

theorem backend_choice_fixed_at_startup:
  "redis_helper (store_otp c email v s) = redis_helper s \<and>
   redis_helper (snd (verify_otp c email x s)) = redis_helper s \<and>
   redis_helper (snd (rh_set t k w ex s)) = redis_helper s \<and>
   redis_helper (snd (rh_hset t k m s)) = redis_helper s \<and>
   redis_helper (snd (rh_expire t k n s)) = redis_helper s \<and>
   redis_helper (snd (rh_delete t ks s)) = redis_helper s \<and>
   redis_helper (snd (rh_incr t k a s)) = redis_helper s \<and>
   redis_helper (snd (rh_hincrby t k f a s)) = redis_helper s \<and>
   (\<not> is_available (redis_helper s) \<longrightarrow>
      server (store_otp c email v s) = server s \<and>
      otp_storage (store_otp c email v s) email
        = Some \<lparr>otp = v, expires_at = now c + seconds 300, attempts = 0\<rparr> \<and>
      server (snd (verify_otp c email x s)) = server s) \<and>
   (is_available (redis_helper s) \<longrightarrow>
      otp_storage (store_otp c email v s) = otp_storage s \<and>
      otp_storage (snd (verify_otp c email x s)) = otp_storage s) \<and>
   (is_available (redis_helper s) \<and> \<not> server_up (server s) \<longrightarrow>
      store_otp c email v s = s \<and>
      verify_otp c email x s = (Inr (False, Not_found_or_expired), s))"
proof -
  have flag: "redis_helper (snd (rh_set t k w ex s)) = redis_helper s"
    "redis_helper (snd (rh_hset t k m s)) = redis_helper s"
    "redis_helper (snd (rh_expire t k n s)) = redis_helper s"
    "redis_helper (snd (rh_delete t ks s)) = redis_helper s"
    "redis_helper (snd (rh_incr t k a s)) = redis_helper s"
    "redis_helper (snd (rh_hincrby t k f a s)) = redis_helper s"
    by (rule same_app_helper, rule same_app_rh_set same_app_rh_hset same_app_rh_expire
        same_app_rh_delete same_app_rh_incr same_app_rh_hincrby)+
  have off: "server (store_otp c email v s) = server s \<and>
      otp_storage (store_otp c email v s) email
        = Some \<lparr>otp = v, expires_at = now c + seconds 300, attempts = 0\<rparr> \<and>
      server (snd (verify_otp c email x s)) = server s"
    if "\<not> is_available (redis_helper s)"
    using that by (simp add: store_otp_def verify_otp_def split: option.split)
  have on: "otp_storage (store_otp c email v s) = otp_storage s \<and>
      otp_storage (snd (verify_otp c email x s)) = otp_storage s"
    if "is_available (redis_helper s)"
    using that same_app_storage [OF store_otp_same_app] same_app_storage [OF verify_otp_same_app]
    by simp
  have down: "store_otp c email v s = s \<and>
      verify_otp c email x s = (Inr (False, Not_found_or_expired), s)"
    if "is_available (redis_helper s) \<and> \<not> server_up (server s)"
    using that store_otp_down verify_otp_down by simp
  show ?thesis
    using store_otp_helper verify_otp_helper flag off on down by blast
qed

theorem backend_choice_fixed_at_startup_witness:
  "redis_helper (store_otp (clock_at 0) ''a@x.com'' ''123456'' (start_state True False))
     = redis_helper (start_state True False) \<and>
   store_otp (clock_at 0) ''a@x.com'' ''123456'' (start_state True False) = start_state True False \<and>
   verify_otp (clock_at 0) ''a@x.com'' ''123456'' (start_state True False)
     = (Inr (False, Not_found_or_expired), start_state True False) \<and>
   server (store_otp (clock_at 0) ''a@x.com'' ''123456'' (start_state False True))
     = server (start_state False True) \<and>
   otp_storage (store_otp (clock_at 0) ''a@x.com'' ''123456'' (start_state False True)) ''a@x.com''
     = Some \<lparr>otp = ''123456'', expires_at = now (clock_at 0) + seconds 300, attempts = 0\<rparr>"
proof -
  have 1: "is_available (redis_helper (start_state True False)) \<and>
           \<not> server_up (server (start_state True False))" by code_simp
  have 2: "\<not> is_available (redis_helper (start_state False True))" by code_simp
  show ?thesis
    using backend_choice_fixed_at_startup [of "clock_at 0" "''a@x.com''" "''123456''"
        "start_state True False" "''123456''"]
      backend_choice_fixed_at_startup [of "clock_at 0" "''a@x.com''" "''123456''"
        "start_state False True" "''123456''"] 1 2
    by simp
qed

text \<open>
  The claim C9 as stated fails in both directions. A server that is up after a failed
  start-up probe is not used: the code goes to \<open>otp_storage\<close> and the key stays free.
  A server that falls silent after a successful probe is still the one addressed: the
  code is not put into \<open>otp_storage\<close>, and its verification answers "not found".
\<close>

theorem recovered_backend_is_not_used:
  "\<not> is_available (redis_helper (start_state False True)) \<and>
   server_up (server (start_state False True)) \<and>
   server_db (server (store_otp (clock_at 0) ''a@x.com'' ''123456'' (start_state False True)))
     (otp_key ''a@x.com'') = None \<and>
   otp_storage (store_otp (clock_at 0) ''a@x.com'' ''123456'' (start_state False True)) ''a@x.com''
     = Some \<lparr>otp = ''123456'', expires_at = 300000000, attempts = 0\<rparr> \<and>
   is_available (redis_helper (start_state True False)) \<and>
   \<not> server_up (server (start_state True False)) \<and>
   otp_storage (store_otp (clock_at 0) ''a@x.com'' ''123456'' (start_state True False)) ''a@x.com''
     = None \<and>
   fst (verify_otp (clock_at 1000000) ''a@x.com'' ''123456''
          (store_otp (clock_at 0) ''a@x.com'' ''123456'' (start_state True False)))
     = Inr (False, Not_found_or_expired)"
  by code_simp

section \<open>The resend cooldown\<close>


lemma same_app_cooldown: "same_app s s' \<Longrightarrow> otp_resend_cooldown s' = otp_resend_cooldown s"
  by (simp add: same_app_def)



lemma otp_record_track_metric: "otp_record (track_metric c m s) email = otp_record s email"
  using same_app_track_metric [of s c m]
  by (simp add: otp_record_def same_app_def redis_otp_entry_def db_track_metric_otp)

lemma track_metric_mode:
  "redis_mode (track_metric c m s) = redis_mode s"
  "fallback_mode (track_metric c m s) = fallback_mode s"
  using redis_mode_same_app [OF same_app_track_metric]
    fallback_mode_same_app [OF same_app_track_metric] by simp_all

lemma verify_track_metric_other_code:
  assumes "redis_mode s \<or> fallback_mode s" "otp_record s email = Some r" "otp r \<noteq> x"
  shows "fst (verify_otp c email x (track_metric c' m s)) \<noteq> Inr (True, Verified_successfully)"
  using verify_otp_other_code [of "track_metric c' m s" email r x c] assms
  by (simp add: track_metric_mode otp_record_track_metric)
































section \<open>Three wrong codes\<close>

text \<open>
  In Redis mode three wrong codes on a fresh record are answered with 2 attempts
  remaining, with 1 attempt remaining and with "Too many incorrect attempts", the record
  being deleted by the third; the call after that finds nothing.
\<close>

lemma verify_otp_redis_three_wrong_codes:
  assumes m: "redis_mode s" and r: "redis_otp_entry s email = Some r" and a: "attempts r = 0"
    and w: "otp r \<noteq> x1" "otp r \<noteq> x2" "otp r \<noteq> x3"
    and l: "now c1 \<le> expires_at r" "now c2 \<le> expires_at r" "now c3 \<le> expires_at r"
  shows "run_otp_ops [(c1, Verify email x1), (c2, Verify email x2), (c3, Verify email x3),
            (c4, Verify email x4)] s
         = [Inr (False, Invalid_remaining 2), Inr (False, Invalid_remaining 1),
            Inr (False, Too_many_attempts), Inr (False, Not_found_or_expired)]"
proof -
  let ?s1 = "snd (verify_otp c1 email x1 s)"
  let ?s2 = "snd (verify_otp c2 email x2 ?s1)"
  let ?s3 = "snd (verify_otp c3 email x3 ?s2)"
  have 1: "fst (verify_otp c1 email x1 s) = Inr (False, Invalid_remaining 2)"
    "redis_otp_entry ?s1 email = Some (r\<lparr>attempts := 1\<rparr>)" "redis_mode ?s1"
    using verify_otp_redis_wrong [OF m r l(1) w(1)] a verify_otp_redis_mode [OF m] by simp_all
  have 2: "fst (verify_otp c2 email x2 ?s1) = Inr (False, Invalid_remaining 1)"
    "redis_otp_entry ?s2 email = Some (r\<lparr>attempts := 2\<rparr>)" "redis_mode ?s2"
    using verify_otp_redis_wrong [OF 1(3) 1(2), of c2 x2] l(2) w(2) verify_otp_redis_mode [OF 1(3)]
    by simp_all
  have 3: "fst (verify_otp c3 email x3 ?s2) = Inr (False, Too_many_attempts)"
    "server_db (server ?s3) (otp_key email) = None" "redis_mode ?s3"
    using verify_otp_redis_locked [OF 2(3) 2(2), of c3 x3] l(3) w(3) verify_otp_redis_mode [OF 2(3)]
    by simp_all
  have "lookup (now c4) (server_db (server ?s3)) (otp_key email) = None"
    using 3(2) by (simp add: lookup_def)
  then have 4: "fst (verify_otp c4 email x4 ?s3) = Inr (False, Not_found_or_expired)"
    using verify_otp_redis_absent [OF 3(3)] by simp
  show ?thesis using 1(1) 2(1) 3(1) 4 by (simp add: split_beta)
qed

text \<open>
  Claim C1. For every email with a live OTP record, three consecutive wrong codes are
  answered by InvalidCode with 2 remaining, InvalidCode with 1 remaining and
  TooManyAttempts (the record being deleted), and every later call by NotFound, whichever
  store is active.

  In fallback mode the code does otherwise. Evaluated at a freshly issued record: the
  three wrong codes are each answered by "Invalid OTP" (no remaining count), the third
  leaves the record in place with \<open>attempts = 3\<close>, and it is the fourth call that
  answers "Too many incorrect attempts".
\<close>

theorem verify_otp_fallback_three_wrong_codes:
  "run_otp_ops
     [(clock_at 0, Issue ''a@x.com'' ''123456''),
      (clock_at 1000000, Verify ''a@x.com'' ''000000''),
      (clock_at 2000000, Verify ''a@x.com'' ''000000''),
      (clock_at 3000000, Verify ''a@x.com'' ''000000''),
      (clock_at 4000000, Verify ''a@x.com'' ''000000'')]
     (start_state False False)
   = [Inr (False, Invalid_otp), Inr (False, Invalid_otp), Inr (False, Invalid_otp),
      Inr (False, Too_many_attempts)]"
  by (simp add: start_state_def clock_at_def connect_def is_available_def store_otp_def
      verify_otp_def seconds_def)

section \<open>The periodic cleanup\<close>

text \<open>
  \<open>index\<close> runs \<open>cleanup_old_data\<close> before it handles a request. In Redis mode it
  does nothing; in fallback mode it removes expired codes and cooldown entries older
  than an hour, so a live record and a cooldown entry inside its 30 seconds stay.
\<close>

lemma cleanup_old_data_redis: "is_available (redis_helper s) \<Longrightarrow> cleanup_old_data c s = s"
  by (simp add: cleanup_old_data_def)

lemma cleanup_old_data_keeps_live:
  "otp_record s email = Some r \<Longrightarrow> now c \<le> expires_at r \<Longrightarrow>
   otp_record (cleanup_old_data c s) email = Some r"
  by (auto simp: cleanup_old_data_def otp_record_def split: if_splits)

lemma cleanup_old_data_keeps_cooldown:
  "cooldown_written s email t \<Longrightarrow> now c - t \<le> seconds 3600 \<Longrightarrow>
   cooldown_written (cleanup_old_data c s) email t"
  by (auto simp: cleanup_old_data_def cooldown_written_def split: if_splits)

end
